theory Spec2Isabelle
  imports Main "HOL-Library.Char_ord" "HOL-Library.List_Lexorder"
begin

section \<open>Strings and labels\<close>

text \<open>
  Python strings are modelled as \<^typ>\<open>string\<close>, the UTF-8 bytes of the text.  Byte-wise
  lexicographic order on UTF-8 agrees with Python's code-point order, so \<^const>\<open>sort\<close> on
  \<^typ>\<open>string\<close> is Python's \<^verbatim>\<open>sorted\<close> on \<^verbatim>\<open>str\<close>.  The CJK labels of
  \<^verbatim>\<open>full_table_generator.py\<close> are written out as their bytes.
\<close>

definition lbl_color :: string where \<comment> \<open>header of the first column ("colour")\<close>
  "lbl_color = [CHR 0xE9, CHR 0xA2, CHR 0x9C, CHR 0xE8, CHR 0x89, CHR 0xB2]"

definition lbl_row_total :: string where \<comment> \<open>header of the row-total column\<close>
  "lbl_row_total = [CHR 0xE8, CHR 0xA1, CHR 0x8C, CHR 0xE5, CHR 0x90, CHR 0x88, CHR 0xE8, CHR 0xAE, CHR 0xA1]"

definition lbl_total :: string where \<comment> \<open>first cell of the total row\<close>
  "lbl_total = [CHR 0xE5, CHR 0x90, CHR 0x88, CHR 0xE8, CHR 0xAE, CHR 0xA1]"

definition col_type :: string where
  "col_type = [CHR 0xE7, CHR 0xB1, CHR 0xBB, CHR 0xE5, CHR 0x9E, CHR 0x8B]"

definition col_pattern :: string where
  "col_pattern = [CHR 0xE5, CHR 0x9B, CHR 0xBE, CHR 0xE6, CHR 0xA1, CHR 0x88]"

definition col_spec :: string where
  "col_spec = [CHR 0xE8, CHR 0xA7, CHR 0x84, CHR 0xE6, CHR 0xA0, CHR 0xBC]"

definition col_qty :: string where
  "col_qty = [CHR 0xE6, CHR 0x95, CHR 0xB0, CHR 0xE9, CHR 0x87, CHR 0x8F]"

definition sheet_title_summary :: string where
  "sheet_title_summary = [CHR 0xE7, CHR 0xB1, CHR 0xBB, CHR 0xE5, CHR 0x9E, CHR 0x8B, CHR 0xE6, CHR 0x95, CHR 0xB0,
     CHR 0xE6, CHR 0x8D, CHR 0xAE, CHR 0xE6, CHR 0xB1, CHR 0x87, CHR 0xE6, CHR 0x80, CHR 0xBB]"

definition sheet_suffix_detail :: string where
  "sheet_suffix_detail = [CHR 0xE6, CHR 0x98, CHR 0x8E, CHR 0xE7, CHR 0xBB, CHR 0x86]"

section \<open>Records and grouping\<close>

text \<open>
  One row of the standardized data frame: the five columns type, pattern, colour, size
  (\<^verbatim>\<open>spec\<close>) and quantity.  The text columns are strings; the quantity column has been coerced
  to integers by \<^verbatim>\<open>DataStandardizer.standardize\<close>.
\<close>

record item =
  r_type :: string
  r_pattern :: string
  r_color :: string
  r_spec :: string
  r_qty :: int

text \<open>\<^verbatim>\<open>sorted(col.unique())\<close>.\<close>

definition sorted_unique :: "string list \<Rightarrow> string list" where
  "sorted_unique xs = sort (remdups xs)"

text \<open>\<^verbatim>\<open>df.groupby(key)\<close>: the groups in ascending key order, each with its rows in frame order.\<close>

definition groupby :: "(item \<Rightarrow> string) \<Rightarrow> item list \<Rightarrow> (string \<times> item list) list" where
  "groupby key df = map (\<lambda>k. (k, filter (\<lambda>r. key r = k) df)) (sorted_unique (map key df))"

text \<open>\<^verbatim>\<open>color_data[color_data[spec_col] == spec][qty_col].sum()\<close> with
  \<^verbatim>\<open>color_data = grp[grp[color_col] == color]\<close>.\<close>

definition cell_qty :: "item list \<Rightarrow> string \<Rightarrow> string \<Rightarrow> int" where
  "cell_qty grp color spec =
     sum_list (map r_qty (filter (\<lambda>r. r_spec r = spec) (filter (\<lambda>r. r_color r = color) grp)))"

section \<open>Constants of the generator\<close>

definition min_columns :: nat where "min_columns = 6"
definition max_columns :: nat where "max_columns = 10"
definition left_start_col :: nat where "left_start_col = 1"
definition right_start_col :: nat where "right_start_col = 12"
definition block_spacing :: nat where "block_spacing = 2"

section \<open>Sorting the size labels\<close>

text \<open>
  \<^verbatim>\<open>_sort_specs\<close> tries \<^verbatim>\<open>sorted(specs, key=float)\<close> and falls back to \<^verbatim>\<open>sorted(specs)\<close>
  when some \<^verbatim>\<open>float(x)\<close> raises.  Python's \<^verbatim>\<open>float\<close> is a parameter \<open>to_float\<close> of the
  model (\<open>None\<close> where it raises); its values are taken in a linear order, which excludes NaN.
  Both sorts are stable, as \<^const>\<open>sort_key\<close> is.
\<close>

definition sort_specs :: "(string \<Rightarrow> 'k::linorder option) \<Rightarrow> string list \<Rightarrow> string list" where
  "sort_specs to_float specs =
     (if \<forall>s \<in> set specs. to_float s \<noteq> None
      then sort_key (\<lambda>s. the (to_float s)) specs
      else sort specs)"

text \<open>
  A concrete reading of \<^verbatim>\<open>float\<close> on the strings it is evaluated on below: a non-empty
  string of ASCII digits denotes its decimal value; anything else is treated as not numeric.
\<close>

definition digit_of :: "char \<Rightarrow> nat option" where
  "digit_of c = (let n = of_char c :: nat in if 48 \<le> n \<and> n \<le> 57 then Some (n - 48) else None)"

fun digits_value :: "nat \<Rightarrow> string \<Rightarrow> nat option" where
  "digits_value acc [] = Some acc"
| "digits_value acc (c # cs) =
     (case digit_of c of None \<Rightarrow> None | Some d \<Rightarrow> digits_value (10 * acc + d) cs)"

definition decimal_of :: "string \<Rightarrow> nat option" where
  "decimal_of s = (if s = [] then None else digits_value 0 s)"

section \<open>Cell values and table structures\<close>

text \<open>
  A cell value is a string, an integer, or the formula
  \<^verbatim>\<open>=SUM({letter}{first}:{letter}{last})\<close>, kept as its column index and its two row numbers
  (\<^verbatim>\<open>get_column_letter\<close> is a bijection between indices and letters).
\<close>

datatype cell_value = Str string | Num int | Sum_formula nat nat nat

text \<open>The dictionary built per type by \<^verbatim>\<open>_calculate_type_aggregation\<close>.\<close>

record type_table =
  t_title :: string
  t_headers :: "string list"
  t_data :: "cell_value list list"
  t_specs :: "string list"
  t_total_cols :: nat
  t_data_rows :: nat
  t_total_col_idx :: nat

text \<open>
  One data row: the colour, one summed quantity per size, then
  \<^verbatim>\<open>sum(row[1:len(sorted_specs)+1])\<close>, which is the sum of exactly those quantities.
\<close>

definition base_row :: "item list \<Rightarrow> string list \<Rightarrow> string \<Rightarrow> cell_value list" where
  "base_row grp sorted_specs color =
     (let qtys = map (cell_qty grp color) sorted_specs
      in Str color # map Num qtys @ [Num (sum_list qtys)])"

definition type_aggregation ::
  "(string \<Rightarrow> 'k::linorder option) \<Rightarrow> string \<Rightarrow> string \<times> item list \<Rightarrow> string \<times> type_table" where
  "type_aggregation to_float date_str kg =
     (let type_name = fst kg; grp = snd kg;
          colors = sorted_unique (map r_color grp);
          raw_specs = sorted_unique (map r_spec grp);
          sorted_specs = sort_specs to_float raw_specs;
          headers0 = [lbl_color] @ sorted_specs @ [lbl_row_total];
          headers = (if length headers0 < min_columns
                     then headers0 @ replicate (min_columns - length headers0) []
                     else headers0);
          data_matrix = map (\<lambda>color.
              let row = base_row grp sorted_specs color
              in row @ replicate (length headers - length row) (Str [])) colors
      in (type_name,
          \<lparr> t_title = type_name @ '' - '' @ date_str,
            t_headers = headers,
            t_data = data_matrix,
            t_specs = sorted_specs,
            t_total_cols = length headers,
            t_data_rows = length colors,
            t_total_col_idx = length sorted_specs + 2 \<rparr>))"

text \<open>\<^verbatim>\<open>_calculate_type_aggregation\<close>: the dictionary in insertion order (the group keys are
  distinct, so no entry is overwritten).\<close>

definition calculate_type_aggregation ::
  "(string \<Rightarrow> 'k::linorder option) \<Rightarrow> string \<Rightarrow> item list \<Rightarrow> (string \<times> type_table) list" where
  "calculate_type_aggregation to_float date_str df =
     map (type_aggregation to_float date_str) (groupby r_type df)"

text \<open>The dictionary returned by \<^verbatim>\<open>_get_pattern_table_structure\<close>.\<close>

record table_struct =
  headers :: "string list"
  data :: "cell_value list list"
  row_count :: nat
  total_cols :: nat
  spec_count :: nat
  total_col_idx :: nat

definition get_pattern_table_structure :: "item list \<Rightarrow> table_struct" where
  "get_pattern_table_structure pattern_data =
     (let colors = sorted_unique (map r_color pattern_data);
          sorted_specs = sorted_unique (map r_spec pattern_data);
          base_headers = [lbl_color] @ sorted_specs @ [lbl_row_total];
          base_col_count = length base_headers;
          tc = (if base_col_count < min_columns then min_columns
                else if base_col_count > max_columns then max_columns
                else base_col_count);
          hs = (if base_col_count < min_columns
                then base_headers @ replicate (min_columns - base_col_count) []
                else if base_col_count > max_columns
                then (take max_columns base_headers)[max_columns - 1 := lbl_row_total]
                else base_headers);
          tci = (if length sorted_specs + 2 > tc then tc else length sorted_specs + 2);
          data_matrix = map (\<lambda>color.
              let row = base_row pattern_data sorted_specs color
              in take tc row @ replicate (tc - length row) (Str [])) colors
      in \<lparr> headers = hs,
           data = data_matrix,
           row_count = length colors,
           total_cols = tc,
           spec_count = length sorted_specs,
           total_col_idx = tci \<rparr>)"

section \<open>The worksheet\<close>

text \<open>
  The document model of the spreadsheet library, as far as the generator uses it: a sheet
  is a partial map from (row, column), both counted from 1, to cells, with the list of
  merged ranges.  \<^verbatim>\<open>ws.cell(row, column)\<close> creates the cell with default style when it does
  not exist yet.  A style assigned to one cell stays on that cell: merging a range does not
  copy later assignments to the other cells of the range.  Alignment is kept as a flag; row
  heights, column widths and page setup carry no information used below and are left out.
\<close>

datatype font = Bold_font | Normal_font
datatype fill = Title_total_fill | Header_fill | White_fill
datatype border = Block_border | No_border

record cell =
  c_value :: "cell_value option"
  c_font :: "font option"
  c_fill :: "fill option"
  c_border :: border
  c_centered :: bool

definition default_cell :: cell where
  "default_cell = \<lparr> c_value = None, c_font = None, c_fill = None, c_border = No_border, c_centered = False \<rparr>"

record worksheet =
  ws_title :: string
  cells :: "nat \<times> nat \<Rightarrow> cell option"
  merged :: "(nat \<times> nat \<times> nat \<times> nat) list"

definition new_sheet :: worksheet where
  "new_sheet = \<lparr> ws_title = [], cells = (\<lambda>_. None), merged = [] \<rparr>"

definition cell_at :: "worksheet \<Rightarrow> nat \<times> nat \<Rightarrow> cell" where
  "cell_at ws p = (case cells ws p of None \<Rightarrow> default_cell | Some c \<Rightarrow> c)"

definition upd_cell :: "nat \<Rightarrow> nat \<Rightarrow> (cell \<Rightarrow> cell) \<Rightarrow> worksheet \<Rightarrow> worksheet" where
  "upd_cell row col f ws = ws\<lparr> cells := (cells ws)((row, col) \<mapsto> f (cell_at ws (row, col))) \<rparr>"

definition merge_cells :: "nat \<Rightarrow> nat \<Rightarrow> nat \<Rightarrow> nat \<Rightarrow> worksheet \<Rightarrow> worksheet" where
  "merge_cells start_row start_column end_row end_column ws =
     ws\<lparr> merged := merged ws @ [(start_row, start_column, end_row, end_column)] \<rparr>"

text \<open>The assignments the generator repeats: value, font, fill, centred alignment and the
  block border; fill, border and alignment only; the empty border only.\<close>

definition write_cell :: "cell_value \<Rightarrow> font \<Rightarrow> fill \<Rightarrow> cell \<Rightarrow> cell" where
  "write_cell v f fl c =
     c\<lparr> c_value := Some v, c_font := Some f, c_fill := Some fl, c_centered := True, c_border := Block_border \<rparr>"

definition pad_cell :: "cell \<Rightarrow> cell" where
  "pad_cell c = c\<lparr> c_fill := Some Title_total_fill, c_border := Block_border, c_centered := True \<rparr>"

definition unborder_cell :: "cell \<Rightarrow> cell" where
  "unborder_cell c = c\<lparr> c_border := No_border \<rparr>"

definition blank_cell :: "cell \<Rightarrow> cell" where
  "blank_cell c = c\<lparr> c_fill := Some White_fill, c_border := No_border, c_centered := True \<rparr>"

text \<open>A rendered block, as the sheet loops place it: what was rendered, the anchor, the
  width and the row of the total row.\<close>

record 'a block =
  b_item :: 'a
  b_row :: nat
  b_col :: nat
  b_cols :: nat
  b_end :: nat

definition rect :: "'a block \<Rightarrow> (nat \<times> nat) set" where
  "rect b = {b_row b .. b_end b} \<times> {b_col b ..< b_col b + b_cols b}"

section \<open>The summary sheet\<close>

text \<open>
  The body of the loop of \<^verbatim>\<open>_generate_original_type_sheet\<close> up to the total row: title,
  headers, data rows, total row.  It is applied to tables built by
  \<^const>\<open>type_aggregation\<close>, whose header list and rows have \<^const>\<open>t_total_cols\<close> entries, so
  that every index below is in range.
\<close>

definition type_block :: "worksheet \<Rightarrow> type_table \<Rightarrow> nat \<Rightarrow> worksheet \<times> nat" where
  "type_block ws type_data current_row =
     (let title_row = current_row;
          header_row = current_row + 1;
          data_start = header_row + 1;
          data_end = data_start + t_data_rows type_data - 1;
          total_row = data_end + 1;
          tc = t_total_cols type_data;
          tci = t_total_col_idx type_data;
          ws1 = upd_cell title_row 1 (write_cell (Str (t_title type_data)) Bold_font Title_total_fill)
                  (merge_cells title_row 1 title_row tc ws);
          ws2 = fold (\<lambda>col. upd_cell header_row col
                    (write_cell (Str (t_headers type_data ! (col - 1))) Bold_font Header_fill))
                  [1 ..< tc + 1] ws1;
          ws3 = fold (\<lambda>(row_offset, data_row).
                    fold (\<lambda>col. upd_cell (data_start + row_offset) col
                       (write_cell (if col - 1 < length data_row then data_row ! (col - 1) else Str [])
                          (if col = 1 \<or> col = tci then Bold_font else Normal_font)
                          (if row_offset mod 2 = 1 then Header_fill else White_fill)))
                      [1 ..< tc + 1])
                  (enumerate 0 (t_data type_data)) ws2;
          ws4 = upd_cell total_row 1 (write_cell (Str lbl_total) Bold_font Title_total_fill) ws3;
          ws5 = fold (\<lambda>col_offset. upd_cell total_row (2 + col_offset)
                    (write_cell (Sum_formula (2 + col_offset) data_start data_end) Bold_font Title_total_fill))
                  [0 ..< length (t_specs type_data)] ws4;
          ws6 = upd_cell total_row tci
                  (write_cell (Sum_formula tci data_start data_end) Bold_font Title_total_fill) ws5;
          ws7 = fold (\<lambda>col_idx w.
                    if col_idx = 1 \<or> (2 \<le> col_idx \<and> col_idx \<le> 1 + length (t_specs type_data)) \<or> col_idx = tci
                    then w else upd_cell total_row col_idx pad_cell w)
                  [1 ..< tc + 1] ws6
      in (ws7, total_row))"

text \<open>The spacer rows after a block: \<^verbatim>\<open>range(total_row + 1, total_row + block_spacing)\<close>.\<close>

definition clear_spacer_rows :: "nat \<Rightarrow> nat \<Rightarrow> worksheet \<Rightarrow> worksheet" where
  "clear_spacer_rows total_row tc ws =
     fold (\<lambda>row. fold (\<lambda>col. upd_cell row col unborder_cell) [1 ..< tc + 1])
       [total_row + 1 ..< total_row + block_spacing] ws"

text \<open>One iteration of the loop.  The state is the sheet, \<^verbatim>\<open>current_row\<close>, and the list of
  the blocks rendered so far.\<close>

definition type_step ::
  "string \<times> type_table \<Rightarrow> worksheet \<times> nat \<times> type_table block list
     \<Rightarrow> worksheet \<times> nat \<times> type_table block list" where
  "type_step entry st =
     (let ws = fst st; current_row = fst (snd st); placed = snd (snd st);
          type_data = snd entry;
          r = type_block ws type_data current_row;
          total_row = snd r;
          ws' = clear_spacer_rows total_row (t_total_cols type_data) (fst r)
      in (ws', total_row + block_spacing,
          placed @ [\<lparr> b_item = type_data, b_row = current_row, b_col = 1,
                       b_cols = t_total_cols type_data, b_end = total_row \<rparr>]))"

text \<open>\<^verbatim>\<open>sorted(items, key=total_cols, reverse=True)\<close>: descending, and stable like every
  Python sort, so tables of equal width keep their dictionary order.\<close>

definition sort_types_desc :: "(string \<times> type_table) list \<Rightarrow> (string \<times> type_table) list" where
  "sort_types_desc aggregation_data = sort_key (\<lambda>x. - int (t_total_cols (snd x))) aggregation_data"

definition generate_original_type_sheet ::
  "worksheet \<Rightarrow> (string \<times> type_table) list \<Rightarrow> worksheet \<times> type_table block list" where
  "generate_original_type_sheet ws aggregation_data =
     (let st = fold type_step (sort_types_desc aggregation_data)
                 (ws\<lparr> ws_title := sheet_title_summary \<rparr>, 1, [])
      in (fst st, snd (snd st)))"

section \<open>The detail sheets\<close>

text \<open>The dictionary built per pattern by \<^verbatim>\<open>_sort_patterns_by_columns\<close>; the key
  \<^verbatim>\<open>title\<close> is assigned by the sheet loop just before the block is rendered.\<close>

record pattern_entry =
  p_name :: string
  p_data :: "item list"
  col_count :: nat
  struct :: table_struct
  p_title :: string

definition sort_patterns_by_columns :: "(string \<times> item list) list \<Rightarrow> string \<Rightarrow> pattern_entry list" where
  "sort_patterns_by_columns patterns order =
     (let patterns_with_cols = map (\<lambda>p.
            let s = get_pattern_table_structure (snd p)
            in \<lparr> p_name = fst p, p_data = snd p, col_count = total_cols s, struct = s, p_title = [] \<rparr>)
          patterns
      in if order = ''desc''
         then sort_key (\<lambda>x. - int (col_count x)) patterns_with_cols
         else sort_key col_count patterns_with_cols)"

definition group_by_column_range :: "pattern_entry list \<Rightarrow> pattern_entry list list" where
  "group_by_column_range sorted_patterns =
     filter (\<lambda>g. g \<noteq> [])
       [filter (\<lambda>p. 6 \<le> col_count p \<and> col_count p \<le> 7) sorted_patterns,
        filter (\<lambda>p. \<not> (6 \<le> col_count p \<and> col_count p \<le> 7)) sorted_patterns]"

definition format_blank_column :: "worksheet \<Rightarrow> nat \<Rightarrow> nat \<Rightarrow> nat \<Rightarrow> worksheet" where
  "format_blank_column ws start_row end_row col_idx =
     fold (\<lambda>row. upd_cell row col_idx blank_cell) [start_row ..< end_row + 1] ws"

text \<open>
  \<^verbatim>\<open>_generate_single_pattern_block\<close>.  The loop over the size columns of the total row
  leaves at the first column beyond the block (\<^verbatim>\<open>break\<close>), which is \<^const>\<open>takeWhile\<close>.
  The structure comes from \<^const>\<open>get_pattern_table_structure\<close>, whose header list and rows
  have \<^const>\<open>total_cols\<close> entries.
\<close>

definition generate_single_pattern_block ::
  "worksheet \<Rightarrow> pattern_entry \<Rightarrow> nat \<Rightarrow> nat \<Rightarrow> worksheet \<times> nat" where
  "generate_single_pattern_block ws pattern start_row start_col =
     (let s = struct pattern;
          title = p_title pattern;
          col_end = start_col + total_cols s - 1;
          ws1 = upd_cell start_row start_col (write_cell (Str title) Bold_font Title_total_fill)
                  (merge_cells start_row start_col start_row col_end ws);
          header_row = start_row + 1;
          ws2 = fold (\<lambda>col_offset. upd_cell header_row (start_col + col_offset)
                    (write_cell (Str (headers s ! col_offset)) Bold_font Header_fill))
                  [0 ..< total_cols s] ws1;
          data_start = header_row + 1;
          data_end = data_start + row_count s - 1;
          ws3 = fold (\<lambda>(row_offset, data_row).
                    fold (\<lambda>col_offset. upd_cell (data_start + row_offset) (start_col + col_offset)
                       (write_cell (data_row ! col_offset)
                          (if col_offset = 0 \<or> col_offset + 1 = total_col_idx s then Bold_font else Normal_font)
                          (if row_offset mod 2 = 1 then Header_fill else White_fill)))
                      [0 ..< total_cols s])
                  (enumerate 0 (data s)) ws2;
          total_row = data_end + 1;
          ws4 = upd_cell total_row start_col (write_cell (Str lbl_total) Bold_font Title_total_fill) ws3;
          ws5 = fold (\<lambda>col_offset. upd_cell total_row (start_col + 1 + col_offset)
                    (write_cell (Sum_formula (start_col + 1 + col_offset) data_start data_end)
                       Bold_font Title_total_fill))
                  (takeWhile (\<lambda>col_offset. \<not> start_col + 1 + col_offset > col_end) [0 ..< spec_count s]) ws4;
          total_col = start_col + total_col_idx s - 1;
          ws6 = (if total_col \<le> col_end
                 then upd_cell total_row total_col
                        (write_cell (Sum_formula total_col data_start data_end) Bold_font Title_total_fill) ws5
                 else ws5);
          ws7 = fold (\<lambda>col_offset w.
                    if col_offset = 0 \<or> (1 \<le> col_offset \<and> col_offset \<le> spec_count s)
                       \<or> col_offset + 1 = total_col_idx s
                    then w else upd_cell total_row (start_col + col_offset) pad_cell w)
                  [0 ..< total_cols s] ws6
      in (ws7, total_row))"

text \<open>
  One iteration of the inner loop of \<^verbatim>\<open>_generate_type_pattern_sheet\<close>: the left pattern
  \<^verbatim>\<open>group[i]\<close>, the right pattern \<^verbatim>\<open>group[i + 1]\<close> when it exists, the new
  \<^verbatim>\<open>current_row\<close>, the spacer column and the cells between the two anchors.  The state is
  the sheet, \<^verbatim>\<open>current_row\<close>, and the list of the blocks rendered so far.
\<close>

definition block_title :: "string \<Rightarrow> string \<Rightarrow> string \<Rightarrow> string" where
  "block_title type_name name date_str = type_name @ '' - '' @ name @ '' - '' @ date_str"

definition pair_step ::
  "string \<Rightarrow> string \<Rightarrow> pattern_entry \<Rightarrow> pattern_entry option
     \<Rightarrow> worksheet \<times> nat \<times> pattern_entry block list \<Rightarrow> worksheet \<times> nat \<times> pattern_entry block list" where
  "pair_step type_name date_str p1 p2opt st =
     (let ws = fst st; current_row = fst (snd st); placed = snd (snd st);
          pattern1 = p1\<lparr> p_title := block_title type_name (p_name p1) date_str \<rparr>;
          l = generate_single_pattern_block ws pattern1 current_row left_start_col;
          left_end_row = snd l;
          placed1 = placed @ [\<lparr> b_item = pattern1, b_row = current_row, b_col = left_start_col,
                                b_cols = total_cols (struct pattern1), b_end = left_end_row \<rparr>];
          r = (case p2opt of
                 None \<Rightarrow> (fst l, left_end_row, placed1)
               | Some p2 \<Rightarrow>
                   let pattern2 = p2\<lparr> p_title := block_title type_name (p_name p2) date_str \<rparr>;
                       rr = generate_single_pattern_block (fst l) pattern2 current_row right_start_col
                   in (fst rr, snd rr,
                       placed1 @ [\<lparr> b_item = pattern2, b_row = current_row, b_col = right_start_col,
                                     b_cols = total_cols (struct pattern2), b_end = snd rr \<rparr>]));
          right_end_row = fst (snd r);
          current_row' = max left_end_row right_end_row + block_spacing;
          space_col = left_start_col + total_cols (struct pattern1);
          ws1 = format_blank_column (fst r) (current_row' - block_spacing)
                  (max left_end_row right_end_row) space_col;
          ws2 = fold (\<lambda>row. fold (\<lambda>col. upd_cell row col unborder_cell)
                         [left_start_col + total_cols (struct pattern1) + 1 ..< right_start_col])
                  [current_row' - block_spacing ..< current_row'] ws1
      in (ws2, current_row', snd (snd r)))"

text \<open>\<^verbatim>\<open>for i in range(0, len(group), 2)\<close>: the band is consumed two patterns at a time.\<close>

fun place_group ::
  "string \<Rightarrow> string \<Rightarrow> pattern_entry list
     \<Rightarrow> worksheet \<times> nat \<times> pattern_entry block list \<Rightarrow> worksheet \<times> nat \<times> pattern_entry block list" where
  "place_group type_name date_str [] st = st"
| "place_group type_name date_str [p1] st = pair_step type_name date_str p1 None st"
| "place_group type_name date_str (p1 # p2 # rest) st =
     place_group type_name date_str rest (pair_step type_name date_str p1 (Some p2) st)"

definition pattern_groups_of :: "item list \<Rightarrow> pattern_entry list list" where
  "pattern_groups_of type_data =
     group_by_column_range (sort_patterns_by_columns (groupby r_pattern type_data) ''asc'')"

definition generate_type_pattern_sheet ::
  "string \<Rightarrow> worksheet \<Rightarrow> string \<Rightarrow> item list \<Rightarrow> worksheet \<times> pattern_entry block list" where
  "generate_type_pattern_sheet date_str ws type_name type_data =
     (let st = fold (place_group type_name date_str) (pattern_groups_of type_data)
                 (ws\<lparr> ws_title := type_name @ sheet_suffix_detail \<rparr>, 1, [])
      in (fst st, snd (snd st)))"

section \<open>Standardizing the input and the entry point\<close>

text \<open>
  The frame read from the input file: its column names and its rows, one cell per column.
  \<^verbatim>\<open>pd.read_excel\<close> either raises \<^verbatim>\<open>FileNotFoundError\<close>, raises something else, or
  returns a frame.  \<^verbatim>\<open>pd.to_numeric(..., errors="coerce").fillna(0).astype(int)\<close> is the
  parameter \<open>to_numeric\<close> (\<open>None\<close> where the cell is coerced to NaN, hence to 0).
\<close>

record dataframe =
  df_columns :: "string list"
  df_rows :: "string list list"

datatype input_file = Missing | Unreadable | Readable dataframe

datatype error = FileNotFoundError | RuntimeError | ValueError string "string list"

text \<open>\<^verbatim>\<open>self.field_mapping\<close>, in insertion order: type, pattern, colour, size, quantity, each
  with its accepted aliases.\<close>

definition field_mapping :: "(string \<times> string list) list" where
  "field_mapping =
     [
      (col_type,
        [col_type,
         [CHR 0xE5, CHR 0xAE, CHR 0x9D, CHR 0xE8, CHR 0xB4, CHR 0x9D, CHR 0xE7, CHR 0xB1, CHR 0xBB, CHR 0xE5, CHR 0x9E, CHR 0x8B],
         [CHR 0xE5, CHR 0x95, CHR 0x86, CHR 0xE5, CHR 0x93, CHR 0x81, CHR 0xE4, CHR 0xBF, CHR 0xA1, CHR 0xE6, CHR 0x81, CHR 0xAF],
         [CHR 0xE4, CHR 0xBA, CHR 0xA7, CHR 0xE5, CHR 0x93, CHR 0x81, CHR 0xE7, CHR 0xB1, CHR 0xBB, CHR 0xE5, CHR 0x9E, CHR 0x8B]]),
      (col_pattern,
        [col_pattern,
         [CHR 0xE5, CHR 0x9B, CHR 0xBE, CHR 0xE6, CHR 0xA1, CHR 0x88, CHR 0xE5, CHR 0x90, CHR 0x8D, CHR 0xE7, CHR 0xA7, CHR 0xB0],
         [CHR 0xE8, CHR 0x8A, CHR 0xB1, CHR 0xE7, CHR 0xBA, CHR 0xB9],
         [CHR 0xE5, CHR 0x8D, CHR 0xB0, CHR 0xE8, CHR 0x8A, CHR 0xB1]]),
      (lbl_color,
        [lbl_color,
         [CHR 0xE8, CHR 0x89, CHR 0xB2, CHR 0xE5, CHR 0xBD, CHR 0xA9],
         [CHR 0xE8, CHR 0x89, CHR 0xB2, CHR 0xE7, CHR 0xB3, CHR 0xBB]]),
      (col_spec,
        [col_spec,
         [CHR 0xE5, CHR 0xB0, CHR 0xBA, CHR 0xE5, CHR 0xAF, CHR 0xB8],
         [CHR 0xE5, CHR 0xB0, CHR 0xBA, CHR 0xE7, CHR 0xA0, CHR 0x81]]),
      (col_qty,
        [col_qty,
         [CHR 0xE4, CHR 0xBB, CHR 0xB6, CHR 0xE6, CHR 0x95, CHR 0xB0],
         [CHR 0xE6, CHR 0x80, CHR 0xBB, CHR 0xE6, CHR 0x95, CHR 0xB0],
         [CHR 0xE5, CHR 0xBA, CHR 0x93, CHR 0xE5, CHR 0xAD, CHR 0x98]])]"

text \<open>\<^verbatim>\<open>str.lower\<close> on the bytes of the string: ASCII capitals are mapped, every other byte
  is kept (the aliases consist of caseless CJK characters).\<close>

definition lower_char :: "char \<Rightarrow> char" where
  "lower_char c = (let n = of_char c :: nat in if 65 \<le> n \<and> n \<le> 90 then char_of (n + 32) else c)"

definition lower_str :: "string \<Rightarrow> string" where
  "lower_str s = map lower_char s"

text \<open>The inner loops of \<^verbatim>\<open>standardize\<close>: the first alias that some column equals up to
  case, and then the first such column.\<close>

definition match_alias :: "string list \<Rightarrow> string list \<Rightarrow> string option" where
  "match_alias columns aliases =
     (case filter (\<lambda>alias. lower_str alias \<in> set (map lower_str columns)) aliases of
        [] \<Rightarrow> None
      | alias # _ \<Rightarrow> find (\<lambda>col. lower_str col = lower_str alias) columns)"

fun standardized_cols ::
  "string list \<Rightarrow> (string \<times> string list) list \<Rightarrow> (string \<rightharpoonup> string) \<Rightarrow> error + (string \<rightharpoonup> string)" where
  "standardized_cols columns [] acc = Inr acc"
| "standardized_cols columns ((standard_col, aliases) # rest) acc =
     (case match_alias columns aliases of
        None \<Rightarrow> Inl (ValueError standard_col aliases)
      | Some matched_alias \<Rightarrow>
          if matched_alias = [] then Inl (ValueError standard_col aliases)
          else standardized_cols columns rest (acc(matched_alias \<mapsto> standard_col)))"

definition field :: "string list \<Rightarrow> string list \<Rightarrow> string \<Rightarrow> string" where
  "field columns row name = (case map_of (zip columns row) name of None \<Rightarrow> [] | Some v \<Rightarrow> v)"

definition standardize :: "(string \<Rightarrow> int option) \<Rightarrow> input_file \<Rightarrow> error + item list" where
  "standardize to_numeric f =
     (case f of
        Missing \<Rightarrow> Inl FileNotFoundError
      | Unreadable \<Rightarrow> Inl RuntimeError
      | Readable df \<Rightarrow>
          (case standardized_cols (df_columns df) field_mapping Map.empty of
             Inl e \<Rightarrow> Inl e
           | Inr renaming \<Rightarrow>
               let columns = map (\<lambda>c. case renaming c of None \<Rightarrow> c | Some s \<Rightarrow> s) (df_columns df)
               in Inr (map (\<lambda>row.
                    \<lparr> r_type = field columns row col_type,
                      r_pattern = field columns row col_pattern,
                      r_color = field columns row lbl_color,
                      r_spec = field columns row col_spec,
                      r_qty = (case to_numeric (field columns row col_qty) of None \<Rightarrow> 0 | Some n \<Rightarrow> n) \<rparr>)
                  (df_rows df))))"

text \<open>
  \<^verbatim>\<open>CompleteTableGenerator.generate\<close>: the workbook is the summary sheet followed by one
  detail sheet per type.  An exception of \<^verbatim>\<open>standardize\<close> leaves the function before the
  workbook exists.  Writing the workbook to disk is outside the model.
\<close>

definition generate ::
  "(string \<Rightarrow> 'k::linorder option) \<Rightarrow> (string \<Rightarrow> int option) \<Rightarrow> string \<Rightarrow> input_file \<Rightarrow> error + worksheet list" where
  "generate to_float to_numeric date_str input =
     (case standardize to_numeric input of
        Inl e \<Rightarrow> Inl e
      | Inr df \<Rightarrow>
          let type_aggregation = calculate_type_aggregation to_float date_str df;
              ws_type = fst (generate_original_type_sheet new_sheet type_aggregation);
              details = map (\<lambda>tg. fst (generate_type_pattern_sheet date_str new_sheet (fst tg) (snd tg)))
                          (groupby r_type df)
          in Inr (ws_type # details))"

section \<open>Reading a sheet\<close>

text \<open>
  What a spreadsheet application shows for a cell: a \<^verbatim>\<open>SUM\<close> formula is the sum of the
  numeric cells of its range, text and empty cells counting 0; any other value is shown as
  it is.
\<close>

definition cell_number :: "worksheet \<Rightarrow> nat \<times> nat \<Rightarrow> int" where
  "cell_number ws p = (case c_value (cell_at ws p) of Some (Num n) \<Rightarrow> n | _ \<Rightarrow> 0)"

definition shown :: "worksheet \<Rightarrow> nat \<times> nat \<Rightarrow> cell_value option" where
  "shown ws p =
     (case c_value (cell_at ws p) of
        Some (Sum_formula col first_row last_row) \<Rightarrow>
          Some (Num (sum_list (map (\<lambda>r. cell_number ws (r, col)) [first_row ..< last_row + 1])))
      | v \<Rightarrow> v)"

definition is_formula :: "cell_value option \<Rightarrow> bool" where
  "is_formula v = (case v of Some (Sum_formula _ _ _) \<Rightarrow> True | _ \<Rightarrow> False)"

section \<open>The anchors of a band\<close>

text \<open>
  The blocks that \<^const>\<open>place_group\<close> renders for a band and the row it ends on, computed
  without the sheet: the end row of a block is its start row plus its number of data rows
  plus 2.  They are proved below to be what the loop records.
\<close>

definition block_at :: "string \<Rightarrow> string \<Rightarrow> pattern_entry \<Rightarrow> nat \<Rightarrow> nat \<Rightarrow> pattern_entry block" where
  "block_at type_name date_str p row col =
     \<lparr> b_item = p\<lparr> p_title := block_title type_name (p_name p) date_str \<rparr>,
       b_row = row, b_col = col, b_cols = total_cols (struct p),
       b_end = row + row_count (struct p) + 2 \<rparr>"

fun band_blocks :: "string \<Rightarrow> string \<Rightarrow> pattern_entry list \<Rightarrow> nat \<Rightarrow> pattern_entry block list" where
  "band_blocks type_name date_str [] cur = []"
| "band_blocks type_name date_str [p1] cur = [block_at type_name date_str p1 cur left_start_col]"
| "band_blocks type_name date_str (p1 # p2 # rest) cur =
     block_at type_name date_str p1 cur left_start_col
     # block_at type_name date_str p2 cur right_start_col
     # band_blocks type_name date_str rest
         (max (cur + row_count (struct p1) + 2) (cur + row_count (struct p2) + 2) + block_spacing)"

fun band_next :: "pattern_entry list \<Rightarrow> nat \<Rightarrow> nat" where
  "band_next [] cur = cur"
| "band_next [p1] cur = cur + row_count (struct p1) + 2 + block_spacing"
| "band_next (p1 # p2 # rest) cur =
     band_next rest (max (cur + row_count (struct p1) + 2) (cur + row_count (struct p2) + 2) + block_spacing)"

text \<open>The same for the summary sheet: the blocks of the tables in the order they are
  rendered, from row \<open>cur\<close>.\<close>

fun stack_blocks :: "type_table list \<Rightarrow> nat \<Rightarrow> type_table block list" where
  "stack_blocks [] cur = []"
| "stack_blocks (td # tds) cur =
     \<lparr> b_item = td, b_row = cur, b_col = 1, b_cols = t_total_cols td, b_end = cur + t_data_rows td + 2 \<rparr>
     # stack_blocks tds (cur + t_data_rows td + 2 + block_spacing)"

text \<open>The blocks of a whole detail sheet: band after band, each from the row the band
  before it ended on.\<close>

fun sheet_blocks :: "string \<Rightarrow> string \<Rightarrow> pattern_entry list list \<Rightarrow> nat \<Rightarrow> pattern_entry block list" where
  "sheet_blocks type_name date_str [] cur = []"
| "sheet_blocks type_name date_str (g # gs) cur =
     band_blocks type_name date_str g cur @ sheet_blocks type_name date_str gs (band_next g cur)"

text \<open>Two blocks whose rectangles share no cell.\<close>

definition apart :: "'a block \<Rightarrow> 'a block \<Rightarrow> bool" where
  "apart a b \<longleftrightarrow> rect a \<inter> rect b = {}"

section \<open>Reading a detail sheet\<close>

text \<open>
  What \<^const>\<open>generate_single_pattern_block\<close> relies on in the table it renders: one list
  per data row, the row total column after the label column and inside the table, and at
  most \<^const>\<open>max_columns\<close> columns, so that a left block ends before the right anchor.
  Every table built by \<^const>\<open>get_pattern_table_structure\<close> is of this kind.
\<close>

definition well_formed :: "pattern_entry \<Rightarrow> bool" where
  "well_formed p \<longleftrightarrow>
     length (data (struct p)) = row_count (struct p)
     \<and> 2 \<le> total_col_idx (struct p)
     \<and> total_col_idx (struct p) \<le> total_cols (struct p)
     \<and> total_cols (struct p) \<le> max_columns"

text \<open>The range merged for the title row of a block.\<close>

definition title_range :: "'a block \<Rightarrow> nat \<times> nat \<times> nat \<times> nat" where
  "title_range b = (b_row b, b_col b, b_row b, b_col b + b_cols b - 1)"

text \<open>
  A block is drawn on a sheet when its title range is merged and the title, the headers, the
  data rows and the label of the total row are the values of the cells of its rectangle.
\<close>

definition drawn :: "worksheet \<Rightarrow> pattern_entry block \<Rightarrow> bool" where
  "drawn ws b \<longleftrightarrow>
     title_range b \<in> set (merged ws)
     \<and> c_value (cell_at ws (b_row b, b_col b)) = Some (Str (p_title (b_item b)))
     \<and> (\<forall>j < b_cols b.
          c_value (cell_at ws (b_row b + 1, b_col b + j)) = Some (Str (headers (struct (b_item b)) ! j)))
     \<and> (\<forall>k < row_count (struct (b_item b)). \<forall>j < b_cols b.
          c_value (cell_at ws (b_row b + 2 + k, b_col b + j)) = Some (data (struct (b_item b)) ! k ! j))
     \<and> c_value (cell_at ws (b_end b, b_col b)) = Some (Str lbl_total)"

section \<open>Sample inputs\<close>

text \<open>One type with one pattern, one colour and the nine sizes 1 to 9, size \<open>n\<close> with
  quantity \<open>n\<close>.\<close>

definition nine_sizes :: "item list" where
  "nine_sizes =
     map (\<lambda>(s, q). \<lparr> r_type = ''A'', r_pattern = ''P'', r_color = ''Red'', r_spec = s, r_qty = q \<rparr>)
       [(''1'', 1), (''2'', 2), (''3'', 3), (''4'', 4), (''5'', 5), (''6'', 6), (''7'', 7), (''8'', 8), (''9'', 9)]"

text \<open>The three records of the scenario of the specification.\<close>

definition scenario_A :: "item list" where
  "scenario_A =
     [\<lparr> r_type = ''A'', r_pattern = ''P'', r_color = ''Red'', r_spec = ''S'', r_qty = 3 \<rparr>,
      \<lparr> r_type = ''A'', r_pattern = ''P'', r_color = ''Red'', r_spec = ''M'', r_qty = 5 \<rparr>,
      \<lparr> r_type = ''A'', r_pattern = ''P'', r_color = ''Blue'', r_spec = ''S'', r_qty = 2 \<rparr>]"

text \<open>One pattern with the two numeric size labels 9 and 10.\<close>

definition sizes_9_10 :: "item list" where
  "sizes_9_10 =
     [\<lparr> r_type = ''A'', r_pattern = ''P'', r_color = ''Red'', r_spec = ''9'', r_qty = 1 \<rparr>,
      \<lparr> r_type = ''A'', r_pattern = ''P'', r_color = ''Red'', r_spec = ''10'', r_qty = 1 \<rparr>]"

text \<open>Two types of one record each.\<close>

definition two_types :: "item list" where
  "two_types =
     [\<lparr> r_type = ''A'', r_pattern = ''P'', r_color = ''Red'', r_spec = ''S'', r_qty = 1 \<rparr>,
      \<lparr> r_type = ''B'', r_pattern = ''P'', r_color = ''Red'', r_spec = ''S'', r_qty = 1 \<rparr>]"

text \<open>The summary sheet of a record set, on a fresh sheet, with the digit reading of
  \<^verbatim>\<open>float\<close> and a fixed date.\<close>

definition summary_of :: "item list \<Rightarrow> worksheet \<times> type_table block list" where
  "summary_of df =
     generate_original_type_sheet new_sheet (calculate_type_aggregation decimal_of ''2026-01-01'' df)"

definition detail_of :: "item list \<Rightarrow> worksheet \<times> pattern_entry block list" where
  "detail_of df = generate_type_pattern_sheet ''2026-01-01'' new_sheet ''A'' df"

text \<open>Three patterns of five sizes each, the second with two colours.\<close>

definition three_patterns :: "item list" where
  "three_patterns =
     concat (map (\<lambda>(p, c). map (\<lambda>s. \<lparr> r_type = ''A'', r_pattern = p, r_color = c, r_spec = s, r_qty = 1 \<rparr>)
                   [''1'', ''2'', ''3'', ''4'', ''5''])
        [(''P1'', ''Red''), (''P2'', ''Red''), (''P2'', ''Blue''), (''P3'', ''Red'')])"

text \<open>A frame with the columns type, pattern, colour and size, and no quantity column.\<close>

definition frame_without_quantity :: dataframe where
  "frame_without_quantity =
     \<lparr> df_columns = [col_type, col_pattern, lbl_color, col_spec],
       df_rows = [[''A'', ''P'', ''Red'', ''S'']] \<rparr>"

text \<open>The pattern entry and the summary table of the scenario.\<close>

definition scenario_pattern :: pattern_entry where
  "scenario_pattern =
     \<lparr> p_name = ''P'', p_data = scenario_A, col_count = 6,
       struct = get_pattern_table_structure scenario_A, p_title = ''A - P - 2026-01-01'' \<rparr>"

definition scenario_table :: type_table where
  "scenario_table = snd (type_aggregation decimal_of ''2026-01-01'' (''A'', scenario_A))"

section \<open>Row totals of truncated detail tables\<close>

text \<open>
  Claim C1 says that in a detail table with more than ten base columns the value rendered
  in the row-total column is the sum of the colour's quantities over all sizes.  The code
  appends the row total to the row and then keeps the first ten cells, so the total is cut
  off and the tenth column, whose header is overwritten with the row-total label and which
  \<^const>\<open>total_col_idx\<close> points at, shows the quantity of the ninth size.  On
  \<^const>\<open>nine_sizes\<close> the quantities sum to 45; the cell under the row-total header shows 9,
  and so does the grand total of the total row.
\<close>

theorem truncated_row_total_is_ninth_size:
  "total_cols (get_pattern_table_structure nine_sizes) = 10
   \<and> total_col_idx (get_pattern_table_structure nine_sizes) = 10
   \<and> headers (get_pattern_table_structure nine_sizes) ! 9 = lbl_row_total
   \<and> data (get_pattern_table_structure nine_sizes)
       = [[Str ''Red'', Num 1, Num 2, Num 3, Num 4, Num 5, Num 6, Num 7, Num 8, Num 9]]
   \<and> sum_list (map r_qty nine_sizes) = 45
   \<and> c_value (cell_at (fst (detail_of nine_sizes)) (2, 10)) = Some (Str lbl_row_total)
   \<and> c_value (cell_at (fst (detail_of nine_sizes)) (3, 10)) = Some (Num 9)
   \<and> shown (fst (detail_of nine_sizes)) (4, 10) = Some (Num 9)"
  by code_simp

section \<open>Column count of summary tables\<close>

text \<open>
  Claim C2 says that every table, on the summary sheet too, has between 6 and 10 columns.
  \<^const>\<open>type_aggregation\<close> pads to \<^const>\<open>min_columns\<close> but never uses
  \<^const>\<open>max_columns\<close>, which only \<^const>\<open>get_pattern_table_structure\<close> applies: the summary
  table of \<^const>\<open>nine_sizes\<close> has 11 columns, headers and rows alike.
\<close>

theorem summary_table_has_eleven_columns:
  "map (t_total_cols \<circ> snd) (calculate_type_aggregation decimal_of ''2026-01-01'' nine_sizes) = [11]
   \<and> map (length \<circ> t_headers \<circ> snd) (calculate_type_aggregation decimal_of ''2026-01-01'' nine_sizes) = [11]
   \<and> map (map length \<circ> t_data \<circ> snd) (calculate_type_aggregation decimal_of ''2026-01-01'' nine_sizes) = [[11]]
   \<and> b_cols (hd (snd (summary_of nine_sizes))) = 11
   \<and> total_cols (get_pattern_table_structure nine_sizes) = 10"
  by code_simp

section \<open>The scenario of the specification\<close>

text \<open>
  Claim C3 gives, for \<^const>\<open>scenario_A\<close>, the headers colour, S, M, row total and the data
  rows Red 3 5 8 and Blue 2 0 2 in that order.  Colours and sizes are sorted, so this is not
  what the summary table holds.
\<close>

theorem scenario_rows_not_in_input_order:
  "t_headers (snd (hd (calculate_type_aggregation decimal_of ''2026-01-01'' scenario_A)))
     \<noteq> [lbl_color, ''S'', ''M'', lbl_row_total, [], []]
   \<and> t_data (snd (hd (calculate_type_aggregation decimal_of ''2026-01-01'' scenario_A)))
     \<noteq> [[Str ''Red'', Num 3, Num 5, Num 8, Str [], Str []],
         [Str ''Blue'', Num 2, Num 0, Num 2, Str [], Str []]]"
  by code_simp

text \<open>
  Claim C3 as amended: the summary block of type A has the headers colour, M, S, row total
  padded to 6 columns, the data rows Blue 0 2 2 and Red 5 3 8 in that order, each padded
  with two empty strings, and a total row of the label, three \<^verbatim>\<open>SUM\<close> formulas over rows
  3 to 4 of their own columns, showing 5, 5 and 10, and two cells without a value.
\<close>

theorem scenario_summary_block:
  "map fst (calculate_type_aggregation decimal_of ''2026-01-01'' scenario_A) = [''A'']
   \<and> t_headers (snd (hd (calculate_type_aggregation decimal_of ''2026-01-01'' scenario_A)))
       = [lbl_color, ''M'', ''S'', lbl_row_total, [], []]
   \<and> t_data (snd (hd (calculate_type_aggregation decimal_of ''2026-01-01'' scenario_A)))
       = [[Str ''Blue'', Num 0, Num 2, Num 2, Str [], Str []],
          [Str ''Red'', Num 5, Num 3, Num 8, Str [], Str []]]
   \<and> map (\<lambda>c. c_value (cell_at (fst (summary_of scenario_A)) (3, c))) [1, 2, 3, 4, 5, 6]
       = [Some (Str ''Blue''), Some (Num 0), Some (Num 2), Some (Num 2), Some (Str []), Some (Str [])]
   \<and> map (\<lambda>c. c_value (cell_at (fst (summary_of scenario_A)) (4, c))) [1, 2, 3, 4, 5, 6]
       = [Some (Str ''Red''), Some (Num 5), Some (Num 3), Some (Num 8), Some (Str []), Some (Str [])]
   \<and> map (\<lambda>c. c_value (cell_at (fst (summary_of scenario_A)) (5, c))) [1, 2, 3, 4, 5, 6]
       = [Some (Str lbl_total), Some (Sum_formula 2 3 4), Some (Sum_formula 3 3 4),
          Some (Sum_formula 4 3 4), None, None]
   \<and> map (\<lambda>c. shown (fst (summary_of scenario_A)) (5, c)) [1, 2, 3, 4, 5, 6]
       = [Some (Str lbl_total), Some (Num 5), Some (Num 5), Some (Num 10), None, None]"
  by code_simp

section \<open>Order of the size columns\<close>

text \<open>
  Claim C4 says that summary and detail tables alike order their size columns numerically
  when every size is numeric.  \<^const>\<open>type_aggregation\<close> calls \<^const>\<open>sort_specs\<close>;
  \<^const>\<open>get_pattern_table_structure\<close> does not, and keeps the lexicographic order.  For the
  sizes 9 and 10 the summary table has 9 before 10 and the detail table 10 before 9.
\<close>

theorem detail_sizes_sorted_as_text:
  "decimal_of ''9'' = Some 9 \<and> decimal_of ''10'' = Some 10
   \<and> t_headers (snd (hd (calculate_type_aggregation decimal_of ''2026-01-01'' sizes_9_10)))
       = [lbl_color, ''9'', ''10'', lbl_row_total, [], []]
   \<and> headers (get_pattern_table_structure sizes_9_10)
       = [lbl_color, ''10'', ''9'', lbl_row_total, [], []]"
  by code_simp

section \<open>Borders of the title row\<close>

text \<open>
  Claim C6 says that every cell inside a block rectangle carries the block border.  Both
  renderers merge the title row over the width of the block and assign the border to its
  first cell only.  On the summary sheet of \<^const>\<open>scenario_A\<close> the block is rows 1 to 5 by
  columns 1 to 6; cell (1, 2) lies in it and in the merged range, was never assigned a
  border, and has none.
\<close>

theorem title_row_border_on_first_cell_only:
  "map (\<lambda>b. (b_row b, b_end b, b_col b, b_cols b)) (snd (summary_of scenario_A)) = [(1, 5, 1, 6)]
   \<and> (1, 2) \<in> rect (hd (snd (summary_of scenario_A)))
   \<and> merged (fst (summary_of scenario_A)) = [(1, 1, 1, 6)]
   \<and> c_border (cell_at (fst (summary_of scenario_A)) (1, 1)) = Block_border
   \<and> cells (fst (summary_of scenario_A)) (1, 2) = None
   \<and> c_border (cell_at (fst (summary_of scenario_A)) (1, 2)) = No_border
   \<and> c_border (cell_at (fst (detail_of scenario_A)) (1, 2)) = No_border"
  by code_simp

section \<open>Spacer rows of the summary sheet\<close>

text \<open>
  Claim C8 says that consecutive blocks of the summary sheet are separated by 2 spacer
  rows.  The next block starts at the total row plus \<^const>\<open>block_spacing\<close>, so exactly
  \<open>block_spacing - 1\<close> rows lie between two blocks.  On \<^const>\<open>two_types\<close> the blocks are rows
  1 to 4 and rows 6 to 9; row 5 is the only row between them.
\<close>

theorem summary_blocks_one_row_apart:
  "map (\<lambda>b. (b_row b, b_end b, b_col b)) (snd (summary_of two_types)) = [(1, 4, 1), (6, 9, 1)]
   \<and> [b_end (snd (summary_of two_types) ! 0) + 1 ..< b_row (snd (summary_of two_types) ! 1)] = [5]
   \<and> c_border (cell_at (fst (summary_of two_types)) (5, 1)) = No_border
   \<and> c_border (cell_at (fst (summary_of two_types)) (6, 1)) = Block_border"
  by code_simp

section \<open>The blocks recorded by the detail loop\<close>

lemma block_end_row:
  "snd (generate_single_pattern_block ws pattern start_row start_col)
     = start_row + row_count (struct pattern) + 2"
  by (simp add: generate_single_pattern_block_def Let_def)

lemma pair_step_single:
  "\<exists>ws'. pair_step tn ds p1 None (ws, cur, tr)
     = (ws', cur + row_count (struct p1) + 2 + block_spacing, tr @ [block_at tn ds p1 cur left_start_col])"
  by (simp add: pair_step_def Let_def block_end_row block_at_def)

lemma pair_step_pair:
  "\<exists>ws'. pair_step tn ds p1 (Some p2) (ws, cur, tr)
     = (ws', max (cur + row_count (struct p1) + 2) (cur + row_count (struct p2) + 2) + block_spacing,
        tr @ [block_at tn ds p1 cur left_start_col, block_at tn ds p2 cur right_start_col])"
  by (simp add: pair_step_def Let_def block_end_row block_at_def)

lemma place_group_blocks:
  "\<exists>ws'. place_group tn ds g (ws, cur, tr) = (ws', band_next g cur, tr @ band_blocks tn ds g cur)"
proof (induction g cur arbitrary: ws tr rule: band_next.induct)
  case (1 cur)
  then show ?case by simp
next
  case (2 p1 cur)
  show ?case using pair_step_single[of tn ds p1 ws cur tr] by auto
next
  case (3 p1 p2 rest cur)
  obtain ws1 where s: "pair_step tn ds p1 (Some p2) (ws, cur, tr)
     = (ws1, max (cur + row_count (struct p1) + 2) (cur + row_count (struct p2) + 2) + block_spacing,
        tr @ [block_at tn ds p1 cur left_start_col, block_at tn ds p2 cur right_start_col])"
    using pair_step_pair by blast
  from "3.IH"[of ws1 "tr @ [block_at tn ds p1 cur left_start_col, block_at tn ds p2 cur right_start_col]"]
  show ?case using s by auto
qed

lemma band_blocks_length: "length (band_blocks tn ds g cur) = length g"
  by (induction tn ds g cur rule: band_blocks.induct) simp_all

lemma band_blocks_item:
  "k < length g \<Longrightarrow>
     b_item (band_blocks tn ds g cur ! k) = (g ! k)\<lparr> p_title := block_title tn (p_name (g ! k)) ds \<rparr>
     \<and> b_cols (band_blocks tn ds g cur ! k) = total_cols (struct (g ! k))
     \<and> b_end (band_blocks tn ds g cur ! k) = b_row (band_blocks tn ds g cur ! k) + row_count (struct (g ! k)) + 2"
proof (induction tn ds g cur arbitrary: k rule: band_blocks.induct)
  case (1 tn ds cur)
  then show ?case by simp
next
  case (2 tn ds p1 cur)
  then show ?case by (simp add: block_at_def)
next
  case (3 tn ds p1 p2 rest cur)
  show ?case
  proof (cases k)
    case 0
    then show ?thesis by (simp add: block_at_def)
  next
    case (Suc j)
    show ?thesis
    proof (cases j)
      case 0
      with Suc show ?thesis by (simp add: block_at_def)
    next
      case (Suc m)
      with \<open>k = Suc j\<close> "3.prems" have "m < length rest" by simp
      from "3.IH"[OF this] show ?thesis using \<open>k = Suc j\<close> Suc by simp
    qed
  qed
qed

lemma band_blocks_first: "g \<noteq> [] \<Longrightarrow> b_row (band_blocks tn ds g cur ! 0) = cur"
  by (induction tn ds g cur rule: band_blocks.induct) (simp_all add: block_at_def)

lemma band_blocks_left:
  "2 * i < length g \<Longrightarrow> b_col (band_blocks tn ds g cur ! (2 * i)) = left_start_col"
proof (induction tn ds g cur arbitrary: i rule: band_blocks.induct)
  case (1 tn ds cur)
  then show ?case by simp
next
  case (2 tn ds p1 cur)
  then show ?case by (simp add: block_at_def)
next
  case (3 tn ds p1 p2 rest cur)
  show ?case
  proof (cases i)
    case 0
    then show ?thesis by (simp add: block_at_def)
  next
    case (Suc j)
    with "3.prems" have "2 * j < length rest" by simp
    from "3.IH"[OF this] show ?thesis using Suc by simp
  qed
qed

lemma band_blocks_right:
  "2 * i + 1 < length g \<Longrightarrow>
     b_col (band_blocks tn ds g cur ! (2 * i + 1)) = right_start_col
     \<and> b_row (band_blocks tn ds g cur ! (2 * i + 1)) = b_row (band_blocks tn ds g cur ! (2 * i))"
proof (induction tn ds g cur arbitrary: i rule: band_blocks.induct)
  case (1 tn ds cur)
  then show ?case by simp
next
  case (2 tn ds p1 cur)
  then show ?case by simp
next
  case (3 tn ds p1 p2 rest cur)
  show ?case
  proof (cases i)
    case 0
    then show ?thesis by (simp add: block_at_def)
  next
    case (Suc j)
    with "3.prems" have "2 * j + 1 < length rest" by simp
    from "3.IH"[OF this] show ?thesis using Suc by simp
  qed
qed

lemma band_blocks_next_row:
  "2 * i + 2 < length g \<Longrightarrow>
     b_row (band_blocks tn ds g cur ! (2 * i + 2))
       = max (b_end (band_blocks tn ds g cur ! (2 * i))) (b_end (band_blocks tn ds g cur ! (2 * i + 1)))
         + block_spacing"
proof (induction tn ds g cur arbitrary: i rule: band_blocks.induct)
  case (1 tn ds cur)
  then show ?case by simp
next
  case (2 tn ds p1 cur)
  then show ?case by simp
next
  case (3 tn ds p1 p2 rest cur)
  show ?case
  proof (cases i)
    case 0
    with "3.prems" have "rest \<noteq> []" by auto
    from band_blocks_first[OF this] show ?thesis using 0 by (simp add: block_at_def)
  next
    case (Suc j)
    with "3.prems" have "2 * j + 2 < length rest" by simp
    from "3.IH"[OF this] show ?thesis using Suc by simp
  qed
qed

lemma band_next_last:
  "g \<noteq> [] \<Longrightarrow>
     band_next g cur
       = max (b_end (band_blocks tn ds g cur ! (2 * ((length g - 1) div 2))))
             (b_end (band_blocks tn ds g cur ! (length g - 1))) + block_spacing"
proof (induction tn ds g cur rule: band_blocks.induct)
  case (1 tn ds cur)
  then show ?case by simp
next
  case (2 tn ds p1 cur)
  then show ?case by (simp add: block_at_def)
next
  case (3 tn ds p1 p2 rest cur)
  show ?case
  proof (cases "rest = []")
    case True
    then show ?thesis by (simp add: block_at_def)
  next
    case False
    then have l: "length rest \<ge> 1" by (cases rest) auto
    have i1: "2 * ((length (p1 # p2 # rest) - 1) div 2) = Suc (Suc (2 * ((length rest - 1) div 2)))"
      using l by (simp, presburger)
    have i2: "length (p1 # p2 # rest) - 1 = Suc (Suc (length rest - 1))"
      using l by simp
    show ?thesis
      unfolding i1 i2 using "3.IH"[OF False] by simp
  qed
qed

lemma sorted_bands:
  assumes "g \<in> set (pattern_groups_of type_data)"
  shows "sorted (map col_count g)"
proof -
  define xs where "xs = sort_patterns_by_columns (groupby r_pattern type_data) ''asc''"
  have s: "sorted (map col_count xs)"
    by (simp add: xs_def sort_patterns_by_columns_def Let_def)
  from assms have "g = filter (\<lambda>p. 6 \<le> col_count p \<and> col_count p \<le> 7) xs
      \<or> g = filter (\<lambda>p. \<not> (6 \<le> col_count p \<and> col_count p \<le> 7)) xs"
    unfolding pattern_groups_of_def group_by_column_range_def xs_def[symmetric]
    by (auto split: if_splits)
  with s show ?thesis using sorted_filter[of col_count xs] by auto
qed

section \<open>Missing fields\<close>

lemma match_alias_None:
  "\<forall>alias \<in> set aliases. lower_str alias \<notin> set (map lower_str columns) \<Longrightarrow> match_alias columns aliases = None"
  by (simp add: match_alias_def filter_empty_conv[THEN iffD2])

lemma match_alias_Some:
  assumes "match_alias columns aliases = Some c"
  shows "c \<in> set columns \<and> (\<exists>alias \<in> set aliases. lower_str c = lower_str alias)"
proof -
  from assms obtain a as where f: "filter (\<lambda>alias. lower_str alias \<in> set (map lower_str columns)) aliases = a # as"
    and g: "find (\<lambda>col. lower_str col = lower_str a) columns = Some c"
    by (auto simp: match_alias_def split: list.splits)
  from f have "a \<in> set aliases"
    by (metis filter_is_subset list.set_intros(1) subsetD)
  moreover from g have "c \<in> set columns \<and> lower_str c = lower_str a"
    by (auto simp: find_Some_iff)
  ultimately show ?thesis by blast
qed

lemma standardized_cols_error:
  "standardized_cols columns mapping acc = Inl e \<Longrightarrow>
     \<exists>sc al. e = ValueError sc al \<and> (sc, al) \<in> set mapping
        \<and> (match_alias columns al = None \<or> match_alias columns al = Some [])"
proof (induction mapping arbitrary: acc)
  case Nil
  then show ?case by simp
next
  case (Cons x mapping)
  obtain sc al where x: "x = (sc, al)" by (cases x)
  show ?case
  proof (cases "match_alias columns al")
    case None
    with Cons.prems x show ?thesis by auto
  next
    case (Some c)
    show ?thesis
    proof (cases "c = []")
      case True
      with Some Cons.prems x show ?thesis by auto
    next
      case False
      with Some Cons.prems x have "standardized_cols columns mapping (acc(c \<mapsto> sc)) = Inl e" by simp
      from Cons.IH[OF this] show ?thesis by auto
    qed
  qed
qed

lemma standardized_cols_missing:
  "(sc, al) \<in> set mapping \<Longrightarrow> match_alias columns al = None \<Longrightarrow>
     \<exists>e. standardized_cols columns mapping acc = Inl e"
proof (induction mapping arbitrary: acc)
  case Nil
  then show ?case by simp
next
  case (Cons x mapping)
  obtain sc' al' where x: "x = (sc', al')" by (cases x)
  show ?case
  proof (cases "x = (sc, al)")
    case True
    with Cons.prems x show ?thesis by auto
  next
    case False
    with Cons.prems have "(sc, al) \<in> set mapping" by auto
    from Cons.IH[OF this Cons.prems(2)] x show ?thesis
      by (auto split: option.splits)
  qed
qed

lemma lower_str_Nil: "lower_str s = [] \<longleftrightarrow> s = []"
  by (simp add: lower_str_def)

lemma field_mapping_aliases_nonempty: "(sc, al) \<in> set field_mapping \<Longrightarrow> [] \<notin> set al"
  by (auto simp: field_mapping_def col_type_def col_pattern_def lbl_color_def col_spec_def col_qty_def)

text \<open>
  Claim C9: when a required field (type, pattern, colour, size or quantity) has no alias
  among the columns of the input frame, \<^const>\<open>generate\<close> returns the error of
  \<^const>\<open>standardize\<close> for a field of the mapping none of whose aliases is a column, and no
  workbook.  The error is the value of the first and only call of \<^const>\<open>standardize\<close>; the
  sheets are built in the other branch only.
\<close>

theorem missing_field_aborts_generation:
  assumes "(standard_col, aliases) \<in> set field_mapping"
    and "\<forall>alias \<in> set aliases. lower_str alias \<notin> set (map lower_str (df_columns df))"
  shows "\<exists>sc al. (sc, al) \<in> set field_mapping
           \<and> (\<forall>alias \<in> set al. lower_str alias \<notin> set (map lower_str (df_columns df)))
           \<and> standardize to_numeric (Readable df) = Inl (ValueError sc al)
           \<and> generate to_float to_numeric date_str (Readable df) = Inl (ValueError sc al)"
proof -
  from assms(2) have "match_alias (df_columns df) aliases = None" by (rule match_alias_None)
  from standardized_cols_missing[OF assms(1) this]
  obtain e where e: "standardized_cols (df_columns df) field_mapping Map.empty = Inl e" by blast
  from standardized_cols_error[OF e] obtain sc al where
    sc: "e = ValueError sc al" "(sc, al) \<in> set field_mapping"
    and m: "match_alias (df_columns df) al = None \<or> match_alias (df_columns df) al = Some []" by blast
  have "match_alias (df_columns df) al \<noteq> Some []"
  proof
    assume "match_alias (df_columns df) al = Some []"
    from match_alias_Some[OF this] obtain a where "a \<in> set al" "lower_str [] = lower_str a" by blast
    then have "[] \<in> set al" using lower_str_Nil[of a] by (simp add: lower_str_def)
    with field_mapping_aliases_nonempty[OF sc(2)] show False by simp
  qed
  with m have n: "match_alias (df_columns df) al = None" by simp
  have "filter (\<lambda>alias. lower_str alias \<in> set (map lower_str (df_columns df))) al = []"
  proof (cases "filter (\<lambda>alias. lower_str alias \<in> set (map lower_str (df_columns df))) al")
    case Nil
    then show ?thesis .
  next
    case (Cons a as)
    then have "a \<in> set (filter (\<lambda>alias. lower_str alias \<in> set (map lower_str (df_columns df))) al)"
      by simp
    then have "lower_str a \<in> set (map lower_str (df_columns df))" by simp
    then obtain c where "c \<in> set (df_columns df)" "lower_str c = lower_str a" by auto
    then have "find (\<lambda>col. lower_str col = lower_str a) (df_columns df) \<noteq> None"
      by (auto simp: find_None_iff)
    with n Cons show ?thesis by (simp add: match_alias_def)
  qed
  then have absent: "\<forall>alias \<in> set al. lower_str alias \<notin> set (map lower_str (df_columns df))"
    by (simp add: filter_empty_conv)
  have s: "standardize to_numeric (Readable df) = Inl (ValueError sc al)"
    using e sc(1) by (simp add: standardize_def)
  then have "generate to_float to_numeric date_str (Readable df) = Inl (ValueError sc al)"
    by (simp add: generate_def)
  with s sc(2) absent show ?thesis by blast
qed

theorem missing_field_aborts_generation_witness:
  "\<exists>sc al. generate decimal_of (\<lambda>s. map_option int (decimal_of s)) ''2026-01-01'' (Readable frame_without_quantity)
      = Inl (ValueError sc al)"
proof -
  have a: "(col_qty, snd (field_mapping ! 4)) \<in> set field_mapping"
    by (simp add: field_mapping_def)
  have b: "\<forall>alias \<in> set (snd (field_mapping ! 4)).
             lower_str alias \<notin> set (map lower_str (df_columns frame_without_quantity))"
    by code_simp
  from missing_field_aborts_generation[OF a b, of "\<lambda>s. map_option int (decimal_of s)" decimal_of "''2026-01-01''"]
  show ?thesis by blast
qed

section \<open>Cells written by the loops\<close>

text \<open>
  What a sheet holds after one of the loops of the renderers has run: the cell at a
  position, the set of existing cells and the merged ranges.
\<close>

lemma cell_at_upd_cell:
  "cell_at (upd_cell r c f ws) p = (if p = (r, c) then f (cell_at ws p) else cell_at ws p)"
  by (simp add: cell_at_def upd_cell_def)

lemma dom_upd_cell: "dom (cells (upd_cell r c f ws)) = insert (r, c) (dom (cells ws))"
  by (simp add: upd_cell_def)

lemma merged_upd_cell: "merged (upd_cell r c f ws) = merged ws"
  by (simp add: upd_cell_def)

lemma cell_at_merge_cells: "cell_at (merge_cells a b c d ws) p = cell_at ws p"
  by (simp add: cell_at_def merge_cells_def)

lemma dom_merge_cells: "dom (cells (merge_cells a b c d ws)) = dom (cells ws)"
  by (simp add: merge_cells_def)

lemma merged_merge_cells: "merged (merge_cells a b c d ws) = merged ws @ [(a, b, c, d)]"
  by (simp add: merge_cells_def)

text \<open>A loop over the columns \<open>c0 + j\<close> of one row.\<close>

lemma row_loop_cell_at:
  "cell_at (fold (\<lambda>j. upd_cell r (c0 + j) (F j)) [0 ..< n] ws) (r', c')
     = (if r' = r \<and> c0 \<le> c' \<and> c' < c0 + n then F (c' - c0) (cell_at ws (r', c'))
        else cell_at ws (r', c'))"
proof (induction n arbitrary: r' c')
  case 0
  then show ?case by auto
next
  case (Suc n)
  show ?case
    by (simp add: cell_at_upd_cell Suc; auto)
qed

lemma row_loop_dom:
  "dom (cells (fold (\<lambda>j. upd_cell r (c0 + j) (F j)) [0 ..< n] ws))
     = dom (cells ws) \<union> {r} \<times> {c0 ..< c0 + n}"
  by (induction n) (auto simp: dom_upd_cell)

lemma row_loop_merged:
  "merged (fold (\<lambda>j. upd_cell r (c0 + j) (F j)) [0 ..< n] ws) = merged ws"
  by (induction n) (auto simp: merged_upd_cell)

text \<open>The same loop with the columns it skips.\<close>

lemma skip_loop_cell_at:
  "cell_at (fold (\<lambda>j w. if P j then w else upd_cell r (c0 + j) f w) [0 ..< n] ws) (r', c')
     = (if r' = r \<and> c0 \<le> c' \<and> c' < c0 + n \<and> \<not> P (c' - c0) then f (cell_at ws (r', c'))
        else cell_at ws (r', c'))"
proof (induction n arbitrary: r' c')
  case 0
  then show ?case by auto
next
  case (Suc n)
  show ?case
    by (simp add: cell_at_upd_cell Suc; auto)
qed

lemma skip_loop_dom:
  "dom (cells (fold (\<lambda>j w. if P j then w else upd_cell r (c0 + j) f w) [0 ..< n] ws))
     = dom (cells ws) \<union> {r} \<times> {c. c0 \<le> c \<and> c < c0 + n \<and> \<not> P (c - c0)}"
proof (induction n)
  case 0
  then show ?case by auto
next
  case (Suc n)
  show ?case
    by (auto simp: dom_upd_cell Suc less_Suc_eq)
qed

lemma skip_loop_merged:
  "merged (fold (\<lambda>j w. if P j then w else upd_cell r (c0 + j) f w) [0 ..< n] ws) = merged ws"
  by (induction n) (auto simp: merged_upd_cell)

text \<open>The loop over the data rows.\<close>

lemma rows_loop_cell_at:
  "cell_at (fold (\<lambda>(k, row). fold (\<lambda>j. upd_cell (r0 + k) (c0 + j) (F k row j)) [0 ..< n])
              (enumerate 0 xs) ws) (r', c')
     = (if r0 \<le> r' \<and> r' < r0 + length xs \<and> c0 \<le> c' \<and> c' < c0 + n
        then F (r' - r0) (xs ! (r' - r0)) (c' - c0) (cell_at ws (r', c'))
        else cell_at ws (r', c'))"
proof (induction xs arbitrary: r' c' rule: rev_induct)
  case Nil
  then show ?case by auto
next
  case (snoc x xs)
  have e: "enumerate 0 (xs @ [x]) = enumerate 0 xs @ [(length xs, x)]"
    by (simp add: enumerate_append_eq)
  show ?case
    unfolding e
    by (simp add: row_loop_cell_at snoc nth_append; auto)
qed

lemma rows_loop_dom:
  "dom (cells (fold (\<lambda>(k, row). fold (\<lambda>j. upd_cell (r0 + k) (c0 + j) (F k row j)) [0 ..< n])
              (enumerate 0 xs) ws))
     = dom (cells ws) \<union> {r0 ..< r0 + length xs} \<times> {c0 ..< c0 + n}"
proof (induction xs rule: rev_induct)
  case Nil
  then show ?case by simp
next
  case (snoc x xs)
  have e: "enumerate 0 (xs @ [x]) = enumerate 0 xs @ [(length xs, x)]"
    by (simp add: enumerate_append_eq)
  show ?case
    unfolding e
    by (auto simp: row_loop_dom snoc less_Suc_eq)
qed

lemma rows_loop_merged:
  "merged (fold (\<lambda>(k, row). fold (\<lambda>j. upd_cell (r0 + k) (c0 + j) (F k row j)) [0 ..< n])
              (enumerate 0 xs) ws) = merged ws"
proof (induction xs rule: rev_induct)
  case Nil
  then show ?case by simp
next
  case (snoc x xs)
  have e: "enumerate 0 (xs @ [x]) = enumerate 0 xs @ [(length xs, x)]"
    by (simp add: enumerate_append_eq)
  show ?case
    unfolding e by (simp add: row_loop_merged snoc)
qed

lemma takeWhile_less_upt: "takeWhile (\<lambda>x. x < m) [0 ..< n] = [0 ..< min n m]"
proof (induction n)
  case 0
  then show ?case by simp
next
  case (Suc n)
  show ?case
  proof (cases "n < m")
    case True
    then have "takeWhile (\<lambda>x. x < m) [0 ..< Suc n] = [0 ..< Suc n]"
      by (auto simp: takeWhile_eq_all_conv)
    with True show ?thesis by (simp add: min_def)
  next
    case False
    then show ?thesis
      using Suc by (auto simp: takeWhile_append min_def)
  qed
qed

lemma size_columns_in_block:
  "takeWhile (\<lambda>col_offset. \<not> c0 + 1 + col_offset > col_end) [0 ..< n] = [0 ..< min n (col_end - c0)]"
proof -
  have "(\<lambda>col_offset. \<not> c0 + 1 + col_offset > col_end) = (\<lambda>x. x < col_end - c0)"
    by (auto simp: fun_eq_iff)
  then show ?thesis by (simp add: takeWhile_less_upt)
qed


lemma dom_if: "dom (cells (if b then x else y)) = (if b then dom (cells x) else dom (cells y))"
  by simp

lemma merged_if: "merged (if b then x else y) = (if b then merged x else merged y)"
  by simp

lemmas sheet_doms = dom_if dom_upd_cell dom_merge_cells row_loop_dom skip_loop_dom rows_loop_dom
  size_columns_in_block

lemmas sheet_merges = merged_if merged_upd_cell merged_merge_cells row_loop_merged skip_loop_merged
  rows_loop_merged size_columns_in_block

lemma cell_at_if: "cell_at (if b then x else y) p = (if b then cell_at x p else cell_at y p)"
  by simp

lemmas sheet_loops = cell_at_if cell_at_upd_cell cell_at_merge_cells row_loop_cell_at
  skip_loop_cell_at rows_loop_cell_at size_columns_in_block

text \<open>The loops of the summary sheet run over the column numbers themselves.\<close>

lemma range_loop_cell_at:
  "cell_at (fold (\<lambda>col. upd_cell r col (F col)) [a ..< b] ws) (r', c')
     = (if r' = r \<and> a \<le> c' \<and> c' < b then F c' (cell_at ws (r', c')) else cell_at ws (r', c'))"
proof (induction b arbitrary: r' c')
  case 0
  then show ?case by auto
next
  case (Suc b)
  show ?case
    by (simp add: cell_at_upd_cell Suc; auto)
qed

lemma range_loop_dom:
  "dom (cells (fold (\<lambda>col. upd_cell r col (F col)) [a ..< b] ws)) = dom (cells ws) \<union> {r} \<times> {a ..< b}"
  by (induction b) (auto simp: dom_upd_cell)

lemma range_loop_merged:
  "merged (fold (\<lambda>col. upd_cell r col (F col)) [a ..< b] ws) = merged ws"
  by (induction b) (auto simp: merged_upd_cell)

lemma range_skip_cell_at:
  "cell_at (fold (\<lambda>col w. if P col then w else upd_cell r col f w) [a ..< b] ws) (r', c')
     = (if r' = r \<and> a \<le> c' \<and> c' < b \<and> \<not> P c' then f (cell_at ws (r', c'))
        else cell_at ws (r', c'))"
proof (induction b arbitrary: r' c')
  case 0
  then show ?case by auto
next
  case (Suc b)
  show ?case
    by (simp add: cell_at_upd_cell Suc; auto)
qed

lemma range_skip_dom:
  "dom (cells (fold (\<lambda>col w. if P col then w else upd_cell r col f w) [a ..< b] ws))
     = dom (cells ws) \<union> {r} \<times> {c. a \<le> c \<and> c < b \<and> \<not> P c}"
proof (induction b)
  case 0
  then show ?case by auto
next
  case (Suc b)
  show ?case
    by (auto simp: dom_upd_cell Suc less_Suc_eq)
qed

lemma range_skip_merged:
  "merged (fold (\<lambda>col w. if P col then w else upd_cell r col f w) [a ..< b] ws) = merged ws"
  by (induction b) (auto simp: merged_upd_cell)

lemma range_rows_cell_at:
  "cell_at (fold (\<lambda>(k, row). fold (\<lambda>col. upd_cell (r0 + k) col (F k row col)) [a ..< b])
              (enumerate 0 xs) ws) (r', c')
     = (if r0 \<le> r' \<and> r' < r0 + length xs \<and> a \<le> c' \<and> c' < b
        then F (r' - r0) (xs ! (r' - r0)) c' (cell_at ws (r', c'))
        else cell_at ws (r', c'))"
proof (induction xs arbitrary: r' c' rule: rev_induct)
  case Nil
  then show ?case by auto
next
  case (snoc x xs)
  have e: "enumerate 0 (xs @ [x]) = enumerate 0 xs @ [(length xs, x)]"
    by (simp add: enumerate_append_eq)
  show ?case
    unfolding e
    by (simp add: range_loop_cell_at snoc nth_append; auto)
qed

lemma range_rows_dom:
  "dom (cells (fold (\<lambda>(k, row). fold (\<lambda>col. upd_cell (r0 + k) col (F k row col)) [a ..< b])
              (enumerate 0 xs) ws))
     = dom (cells ws) \<union> {r0 ..< r0 + length xs} \<times> {a ..< b}"
proof (induction xs rule: rev_induct)
  case Nil
  then show ?case by simp
next
  case (snoc x xs)
  have e: "enumerate 0 (xs @ [x]) = enumerate 0 xs @ [(length xs, x)]"
    by (simp add: enumerate_append_eq)
  show ?case
    unfolding e
    by (auto simp: range_loop_dom snoc less_Suc_eq)
qed

lemma range_rows_merged:
  "merged (fold (\<lambda>(k, row). fold (\<lambda>col. upd_cell (r0 + k) col (F k row col)) [a ..< b])
              (enumerate 0 xs) ws) = merged ws"
proof (induction xs rule: rev_induct)
  case Nil
  then show ?case by simp
next
  case (snoc x xs)
  have e: "enumerate 0 (xs @ [x]) = enumerate 0 xs @ [(length xs, x)]"
    by (simp add: enumerate_append_eq)
  show ?case
    unfolding e by (simp add: range_loop_merged snoc)
qed

lemmas summary_loops = cell_at_if cell_at_upd_cell cell_at_merge_cells row_loop_cell_at
  range_loop_cell_at range_skip_cell_at range_rows_cell_at

lemmas summary_doms = dom_upd_cell dom_merge_cells row_loop_dom range_loop_dom range_skip_dom
  range_rows_dom

lemmas summary_merges = merged_upd_cell merged_merge_cells row_loop_merged range_loop_merged
  range_skip_merged range_rows_merged

section \<open>Cells of a detail block\<close>

lemma detail_title_cell:
  "c_value (cell_at (fst (generate_single_pattern_block ws p r c)) (r, c)) = Some (Str (p_title p))"
  unfolding generate_single_pattern_block_def Let_def fst_conv sheet_loops
  by (simp add: write_cell_def)

lemma detail_header_cell:
  assumes "j < total_cols (struct p)"
  shows "c_value (cell_at (fst (generate_single_pattern_block ws p r c)) (r + 1, c + j))
           = Some (Str (headers (struct p) ! j))"
  unfolding generate_single_pattern_block_def Let_def fst_conv sheet_loops
  using assms by (simp add: write_cell_def)

lemma detail_data_cell:
  assumes "length (data (struct p)) = row_count (struct p)"
    and "k < row_count (struct p)" and "j < total_cols (struct p)"
  shows "c_value (cell_at (fst (generate_single_pattern_block ws p r c)) (r + 2 + k, c + j))
           = Some (data (struct p) ! k ! j)"
  unfolding generate_single_pattern_block_def Let_def fst_conv sheet_loops
  using assms by (simp add: write_cell_def pad_cell_def)

lemma detail_total_label:
  assumes "2 \<le> total_col_idx (struct p)"
  shows "c_value (cell_at (fst (generate_single_pattern_block ws p r c)) (r + row_count (struct p) + 2, c))
           = Some (Str lbl_total)"
  unfolding generate_single_pattern_block_def Let_def fst_conv sheet_loops
  using assms by (auto simp: write_cell_def pad_cell_def)

lemma detail_total_formula:
  assumes "1 \<le> j" and "j < total_cols (struct p)"
    and "j \<le> spec_count (struct p) \<or> j + 1 = total_col_idx (struct p)"
  shows "c_value (cell_at (fst (generate_single_pattern_block ws p r c)) (r + row_count (struct p) + 2, c + j))
           = Some (Sum_formula (c + j) (r + 2) (r + row_count (struct p) + 1))"
  unfolding generate_single_pattern_block_def Let_def fst_conv sheet_loops
  using assms by (auto simp: write_cell_def pad_cell_def)

lemma detail_outside:
  assumes d: "length (data (struct p)) = row_count (struct p)"
    and t1: "1 \<le> total_col_idx (struct p)" and t2: "total_col_idx (struct p) \<le> total_cols (struct p)"
    and out: "r' < r \<or> r + row_count (struct p) + 2 < r' \<or> c' < c \<or> c + total_cols (struct p) \<le> c'
         \<or> (r' = r \<and> c' \<noteq> c)"
  shows "cell_at (fst (generate_single_pattern_block ws p r c)) (r', c') = cell_at ws (r', c')"
proof -
  from out consider "r' < r" | "r + row_count (struct p) + 2 < r'" | "c' < c"
    | "c + total_cols (struct p) \<le> c'" | "r' = r" "c' \<noteq> c" by blast
  then show ?thesis
  proof cases
    case 1
    then show ?thesis
      unfolding generate_single_pattern_block_def Let_def fst_conv sheet_loops
      using d by simp
  next
    case 2
    then show ?thesis
      unfolding generate_single_pattern_block_def Let_def fst_conv sheet_loops
      using d by simp
  next
    case 3
    then show ?thesis
      unfolding generate_single_pattern_block_def Let_def fst_conv sheet_loops
      using d t1 t2 by (simp; arith)
  next
    case 4
    then show ?thesis
      unfolding generate_single_pattern_block_def Let_def fst_conv sheet_loops
      using d t1 t2 by (simp; arith)
  next
    case 5
    then show ?thesis
      unfolding generate_single_pattern_block_def Let_def fst_conv sheet_loops
      using d by simp
  qed
qed

lemma detail_border:
  assumes d: "length (data (struct p)) = row_count (struct p)"
    and t1: "2 \<le> total_col_idx (struct p)" and t2: "total_col_idx (struct p) \<le> total_cols (struct p)"
    and r1: "r + 1 \<le> r'" and r2: "r' \<le> r + row_count (struct p) + 2" and j: "j < total_cols (struct p)"
  shows "c_border (cell_at (fst (generate_single_pattern_block ws p r c)) (r', c + j)) = Block_border"
proof -
  from r1 r2 consider "r' = r + 1" | "r + 2 \<le> r'" "r' < r + 2 + row_count (struct p)"
    | "r' = r + row_count (struct p) + 2" by linarith
  then show ?thesis
  proof cases
    case 1
    then show ?thesis
      unfolding generate_single_pattern_block_def Let_def fst_conv sheet_loops
      using d j by (simp add: write_cell_def)
  next
    case 2
    then show ?thesis
      unfolding generate_single_pattern_block_def Let_def fst_conv sheet_loops
      using d j by (simp add: write_cell_def)
  next
    case 3
    then show ?thesis
      unfolding generate_single_pattern_block_def Let_def fst_conv sheet_loops
      using d j t1 t2 by (auto simp: write_cell_def pad_cell_def)
  qed
qed

lemma detail_merged:
  "merged (fst (generate_single_pattern_block ws p r c))
     = merged ws @ [(r, c, r, c + total_cols (struct p) - 1)]"
  unfolding generate_single_pattern_block_def Let_def fst_conv sheet_merges
  by simp

lemma detail_dom:
  assumes d: "length (data (struct p)) = row_count (struct p)"
    and t1: "2 \<le> total_col_idx (struct p)" and t2: "total_col_idx (struct p) \<le> total_cols (struct p)"
  shows "dom (cells (fst (generate_single_pattern_block ws p r c)))
     = dom (cells ws) \<union> ({(r, c)} \<union> {r + 1 .. r + row_count (struct p) + 2} \<times> {c ..< c + total_cols (struct p)})"
  unfolding generate_single_pattern_block_def Let_def fst_conv sheet_doms
  using assms by (auto simp: )

section \<open>Cells of a summary block\<close>

lemma summary_end_row: "snd (type_block ws td r) = r + t_data_rows td + 2"
  by (simp add: type_block_def Let_def)

lemma summary_title_cell:
  "c_value (cell_at (fst (type_block ws td r)) (r, 1)) = Some (Str (t_title td))"
  unfolding type_block_def Let_def fst_conv summary_loops
  by (simp add: write_cell_def)

lemma summary_header_cell:
  assumes "j < t_total_cols td"
  shows "c_value (cell_at (fst (type_block ws td r)) (r + 1, 1 + j)) = Some (Str (t_headers td ! j))"
  unfolding type_block_def Let_def fst_conv summary_loops
  using assms by (simp add: write_cell_def)

lemma summary_data_cell:
  assumes "length (t_data td) = t_data_rows td"
    and "k < t_data_rows td" and "j < t_total_cols td" and "j < length (t_data td ! k)"
  shows "c_value (cell_at (fst (type_block ws td r)) (r + 2 + k, 1 + j)) = Some (t_data td ! k ! j)"
  unfolding type_block_def Let_def fst_conv summary_loops
  using assms by (simp add: write_cell_def pad_cell_def)

lemma summary_total_label:
  assumes "2 \<le> t_total_col_idx td"
  shows "c_value (cell_at (fst (type_block ws td r)) (r + t_data_rows td + 2, 1)) = Some (Str lbl_total)"
  unfolding type_block_def Let_def fst_conv summary_loops
  using assms by (auto simp: write_cell_def pad_cell_def)

lemma summary_total_formula:
  assumes "1 \<le> j" and "j \<le> length (t_specs td) \<or> j + 1 = t_total_col_idx td"
  shows "c_value (cell_at (fst (type_block ws td r)) (r + t_data_rows td + 2, 1 + j))
           = Some (Sum_formula (1 + j) (r + 2) (r + t_data_rows td + 1))"
  unfolding type_block_def Let_def fst_conv summary_loops
  using assms by (auto simp: write_cell_def pad_cell_def)

lemma summary_merged:
  "merged (fst (type_block ws td r)) = merged ws @ [(r, 1, r, t_total_cols td)]"
  unfolding type_block_def Let_def fst_conv summary_merges
  by simp

lemma summary_dom:
  assumes d: "length (t_data td) = t_data_rows td"
    and t1: "t_total_col_idx td = length (t_specs td) + 2" and t2: "t_total_col_idx td \<le> t_total_cols td"
  shows "dom (cells (fst (type_block ws td r)))
     = dom (cells ws) \<union> ({(r, 1)} \<union> {r + 1 .. r + t_data_rows td + 2} \<times> {1 ..< 1 + t_total_cols td})"
  unfolding type_block_def Let_def fst_conv summary_doms
  using assms by auto

section \<open>Tables built by the aggregator\<close>

lemma length_sorted_unique: "length (sorted_unique xs) = card (set xs)"
  by (simp add: sorted_unique_def length_remdups_card_conv)

lemma length_base_row: "length (base_row grp specs color) = length specs + 2"
  by (simp add: base_row_def Let_def)

lemma base_row_first: "base_row grp specs color ! 0 = Str color"
  by (simp add: base_row_def Let_def)

lemma base_row_size: "j < length specs \<Longrightarrow> base_row grp specs color ! (Suc j) = Num (cell_qty grp color (specs ! j))"
  by (simp add: base_row_def Let_def nth_append)

lemma base_row_total:
  "base_row grp specs color ! (Suc (length specs)) = Num (sum_list (map (cell_qty grp color) specs))"
  by (simp add: base_row_def Let_def nth_append)

lemma struct_row_count:
  "row_count (get_pattern_table_structure grp) = card (r_color ` set grp)"
  by (simp add: get_pattern_table_structure_def Let_def length_sorted_unique)

lemma struct_data_length:
  "length (data (get_pattern_table_structure grp)) = row_count (get_pattern_table_structure grp)"
  by (simp add: get_pattern_table_structure_def Let_def)

lemma struct_spec_count:
  "spec_count (get_pattern_table_structure grp) = card (r_spec ` set grp)"
  by (simp add: get_pattern_table_structure_def Let_def length_sorted_unique)

lemma struct_cols_bounds:
  "min_columns \<le> total_cols (get_pattern_table_structure grp)
   \<and> total_cols (get_pattern_table_structure grp) \<le> max_columns"
  by (simp add: get_pattern_table_structure_def Let_def min_columns_def max_columns_def)

lemma struct_headers_length:
  "length (headers (get_pattern_table_structure grp)) = total_cols (get_pattern_table_structure grp)"
  by (simp add: get_pattern_table_structure_def Let_def min_columns_def max_columns_def)

lemma struct_row_length:
  "row \<in> set (data (get_pattern_table_structure grp)) \<Longrightarrow>
     length row = total_cols (get_pattern_table_structure grp)"
  by (auto simp: get_pattern_table_structure_def Let_def min_columns_def max_columns_def length_base_row)

lemma struct_total_col_idx:
  "total_col_idx (get_pattern_table_structure grp)
     = min (spec_count (get_pattern_table_structure grp) + 2) (total_cols (get_pattern_table_structure grp))"
  by (simp add: get_pattern_table_structure_def Let_def min_columns_def max_columns_def)

lemma struct_total_col_idx_bounds:
  "2 \<le> total_col_idx (get_pattern_table_structure grp)
   \<and> total_col_idx (get_pattern_table_structure grp) \<le> total_cols (get_pattern_table_structure grp)"
  by (simp add: get_pattern_table_structure_def Let_def min_columns_def max_columns_def)

lemma struct_row_first:
  assumes "k < row_count (get_pattern_table_structure grp)"
  shows "data (get_pattern_table_structure grp) ! k ! 0 = Str (sorted_unique (map r_color grp) ! k)"
  using assms
  by (simp add: get_pattern_table_structure_def Let_def min_columns_def max_columns_def
      nth_append length_base_row base_row_first)

lemma struct_row_total_literal:
  assumes "k < row_count (get_pattern_table_structure grp)"
  shows "\<exists>n. data (get_pattern_table_structure grp) ! k ! (total_col_idx (get_pattern_table_structure grp) - 1) = Num n"
proof -
  let ?specs = "sorted_unique (map r_spec grp)"
  let ?color = "sorted_unique (map r_color grp) ! k"
  show ?thesis
  proof (cases "length ?specs + 2 \<le> max_columns")
    case True
    then show ?thesis using assms
      by (auto simp: get_pattern_table_structure_def Let_def min_columns_def max_columns_def
          nth_append length_base_row base_row_total)
  next
    case False
    then have "8 < length ?specs" by (simp add: max_columns_def)
    then have "base_row grp ?specs ?color ! Suc 8 = Num (cell_qty grp ?color (?specs ! 8))"
      by (rule base_row_size)
    with False show ?thesis using assms
      by (simp add: get_pattern_table_structure_def Let_def min_columns_def max_columns_def
          nth_append length_base_row)
  qed
qed

text \<open>The tables of the summary sheet.\<close>

lemma table_data_length:
  "length (t_data (snd (type_aggregation to_float date_str kg))) = t_data_rows (snd (type_aggregation to_float date_str kg))"
  by (simp add: type_aggregation_def Let_def)

lemma table_data_rows:
  "t_data_rows (snd (type_aggregation to_float date_str kg)) = card (r_color ` set (snd kg))"
  by (simp add: type_aggregation_def Let_def length_sorted_unique)

lemma table_cols_min:
  "min_columns \<le> t_total_cols (snd (type_aggregation to_float date_str kg))"
  by (simp add: type_aggregation_def Let_def min_columns_def)

lemma table_headers_length:
  "length (t_headers (snd (type_aggregation to_float date_str kg))) = t_total_cols (snd (type_aggregation to_float date_str kg))"
  by (simp add: type_aggregation_def Let_def)

lemma table_row_length:
  "row \<in> set (t_data (snd (type_aggregation to_float date_str kg))) \<Longrightarrow>
     length row = t_total_cols (snd (type_aggregation to_float date_str kg))"
  by (auto simp: type_aggregation_def Let_def min_columns_def length_base_row)

lemma table_total_col_idx:
  "t_total_col_idx (snd (type_aggregation to_float date_str kg))
     = length (t_specs (snd (type_aggregation to_float date_str kg))) + 2
   \<and> t_total_col_idx (snd (type_aggregation to_float date_str kg))
     \<le> t_total_cols (snd (type_aggregation to_float date_str kg))"
  by (simp add: type_aggregation_def Let_def min_columns_def)

lemma table_row_first:
  assumes "k < t_data_rows (snd (type_aggregation to_float date_str kg))"
  shows "t_data (snd (type_aggregation to_float date_str kg)) ! k ! 0 = Str (sorted_unique (map r_color (snd kg)) ! k)"
  using assms
  by (simp add: type_aggregation_def Let_def min_columns_def nth_append length_base_row base_row_first)

lemma table_row_total:
  assumes "k < t_data_rows (snd (type_aggregation to_float date_str kg))"
  shows "t_data (snd (type_aggregation to_float date_str kg)) ! k
           ! (t_total_col_idx (snd (type_aggregation to_float date_str kg)) - 1)
         = Num (sum_list (map (cell_qty (snd kg) (sorted_unique (map r_color (snd kg)) ! k))
                  (t_specs (snd (type_aggregation to_float date_str kg)))))"
  using assms
  by (simp add: type_aggregation_def Let_def min_columns_def nth_append length_base_row base_row_total)

section \<open>Rows of a rendered block\<close>

lemma block_rows_set:
  fixes r c rc tc :: nat
  assumes tc: "0 < tc"
  shows "fst ` ({(r, c)} \<union> {r + 1 .. r + rc + 2} \<times> {c ..< c + tc}) = {r .. r + rc + 2}"
proof -
  have "{c ..< c + tc} \<noteq> {}" using tc by simp
  then have "fst ` ({r + 1 .. r + rc + 2} \<times> {c ..< c + tc}) = {r + 1 .. r + rc + 2}"
    by (simp add: fst_image_times)
  then have "fst ` ({(r, c)} \<union> {r + 1 .. r + rc + 2} \<times> {c ..< c + tc}) = insert r {r + 1 .. r + rc + 2}"
    by (simp add: image_Un)
  also have "\<dots> = {r .. r + rc + 2}" by auto
  finally show ?thesis .
qed

text \<open>
  Claim C10: a block rendered at row \<open>r\<close> for a table of the aggregator, by the detail
  renderer at any column \<open>c\<close> or by the summary loop at column 1, consists of the title cell
  in row \<open>r\<close> (merged over the width of the block), the headers in row \<open>r + 1\<close>, one data
  row per distinct colour of the group in rows \<open>r + 2\<close> onwards, in sorted colour order, and
  the total row in row \<open>r + rowCount + 2\<close>; it creates cells in exactly the rows \<open>r\<close> to
  \<open>r + rowCount + 2\<close>, and that last row is what the renderer returns.
\<close>

theorem rendered_block_rows:
  assumes p: "struct p = get_pattern_table_structure grp"
    and td: "td = snd (type_aggregation to_float date_str (type_name, grp))"
  shows
   "snd (generate_single_pattern_block ws p r c) = r + row_count (struct p) + 2
    \<and> row_count (struct p) = card (r_color ` set grp)
    \<and> dom (cells (fst (generate_single_pattern_block ws p r c)))
        = dom (cells ws) \<union> ({(r, c)} \<union> {r + 1 .. r + row_count (struct p) + 2} \<times> {c ..< c + total_cols (struct p)})
    \<and> fst ` dom (cells (fst (generate_single_pattern_block new_sheet p r c))) = {r .. r + row_count (struct p) + 2}
    \<and> merged (fst (generate_single_pattern_block ws p r c))
        = merged ws @ [(r, c, r, c + total_cols (struct p) - 1)]
    \<and> c_value (cell_at (fst (generate_single_pattern_block ws p r c)) (r, c)) = Some (Str (p_title p))
    \<and> (\<forall>j < total_cols (struct p).
          c_value (cell_at (fst (generate_single_pattern_block ws p r c)) (r + 1, c + j))
            = Some (Str (headers (struct p) ! j)))
    \<and> (\<forall>k < row_count (struct p).
          data (struct p) ! k ! 0 = Str (sorted_unique (map r_color grp) ! k)
          \<and> (\<forall>j < total_cols (struct p).
                c_value (cell_at (fst (generate_single_pattern_block ws p r c)) (r + 2 + k, c + j))
                  = Some (data (struct p) ! k ! j)))
    \<and> c_value (cell_at (fst (generate_single_pattern_block ws p r c)) (r + row_count (struct p) + 2, c))
        = Some (Str lbl_total)
    \<and> snd (type_block ws td r) = r + t_data_rows td + 2
    \<and> t_data_rows td = card (r_color ` set grp)
    \<and> dom (cells (fst (type_block ws td r)))
        = dom (cells ws) \<union> ({(r, 1)} \<union> {r + 1 .. r + t_data_rows td + 2} \<times> {1 ..< 1 + t_total_cols td})
    \<and> fst ` dom (cells (fst (type_block new_sheet td r))) = {r .. r + t_data_rows td + 2}
    \<and> merged (fst (type_block ws td r)) = merged ws @ [(r, 1, r, t_total_cols td)]
    \<and> c_value (cell_at (fst (type_block ws td r)) (r, 1)) = Some (Str (t_title td))
    \<and> (\<forall>j < t_total_cols td.
          c_value (cell_at (fst (type_block ws td r)) (r + 1, 1 + j)) = Some (Str (t_headers td ! j)))
    \<and> (\<forall>k < t_data_rows td.
          t_data td ! k ! 0 = Str (sorted_unique (map r_color grp) ! k)
          \<and> (\<forall>j < t_total_cols td.
                c_value (cell_at (fst (type_block ws td r)) (r + 2 + k, 1 + j)) = Some (t_data td ! k ! j)))
    \<and> c_value (cell_at (fst (type_block ws td r)) (r + t_data_rows td + 2, 1)) = Some (Str lbl_total)"
proof -
  have d: "length (data (struct p)) = row_count (struct p)"
    unfolding p by (rule struct_data_length)
  have t: "2 \<le> total_col_idx (struct p)" "total_col_idx (struct p) \<le> total_cols (struct p)"
    unfolding p using struct_total_col_idx_bounds[of grp] by simp_all
  have tc: "0 < total_cols (struct p)"
    unfolding p using struct_cols_bounds[of grp] by (simp add: min_columns_def)
  have f1: "snd (generate_single_pattern_block ws p r c) = r + row_count (struct p) + 2"
    by (rule block_end_row)
  have f2: "row_count (struct p) = card (r_color ` set grp)"
    unfolding p by (rule struct_row_count)
  have dm: "\<And>w. dom (cells (fst (generate_single_pattern_block w p r c)))
        = dom (cells w) \<union> ({(r, c)} \<union> {r + 1 .. r + row_count (struct p) + 2} \<times> {c ..< c + total_cols (struct p)})"
    by (rule detail_dom[OF d t])
  have f3: "dom (cells (fst (generate_single_pattern_block ws p r c)))
        = dom (cells ws) \<union> ({(r, c)} \<union> {r + 1 .. r + row_count (struct p) + 2} \<times> {c ..< c + total_cols (struct p)})"
    by (rule dm)
  have e: "dom (cells new_sheet) = {}" by (simp add: new_sheet_def)
  have f4: "fst ` dom (cells (fst (generate_single_pattern_block new_sheet p r c))) = {r .. r + row_count (struct p) + 2}"
    unfolding dm e Un_empty_left by (rule block_rows_set[OF tc])
  have f5: "merged (fst (generate_single_pattern_block ws p r c))
        = merged ws @ [(r, c, r, c + total_cols (struct p) - 1)]"
    by (rule detail_merged)
  have f6: "c_value (cell_at (fst (generate_single_pattern_block ws p r c)) (r, c)) = Some (Str (p_title p))"
    by (rule detail_title_cell)
  have f7: "\<forall>j < total_cols (struct p).
          c_value (cell_at (fst (generate_single_pattern_block ws p r c)) (r + 1, c + j))
            = Some (Str (headers (struct p) ! j))"
    using detail_header_cell by blast
  have f8: "\<forall>k < row_count (struct p).
          data (struct p) ! k ! 0 = Str (sorted_unique (map r_color grp) ! k)
          \<and> (\<forall>j < total_cols (struct p).
                c_value (cell_at (fst (generate_single_pattern_block ws p r c)) (r + 2 + k, c + j))
                  = Some (data (struct p) ! k ! j))"
  proof (intro allI impI conjI)
    fix k assume k: "k < row_count (struct p)"
    then show "data (struct p) ! k ! 0 = Str (sorted_unique (map r_color grp) ! k)"
      unfolding p by (rule struct_row_first)
    fix j assume "j < total_cols (struct p)"
    with k show "c_value (cell_at (fst (generate_single_pattern_block ws p r c)) (r + 2 + k, c + j))
                  = Some (data (struct p) ! k ! j)"
      by (rule detail_data_cell[OF d])
  qed
  have f9: "c_value (cell_at (fst (generate_single_pattern_block ws p r c)) (r + row_count (struct p) + 2, c))
        = Some (Str lbl_total)"
    by (rule detail_total_label[OF t(1)])
  have sd: "length (t_data td) = t_data_rows td"
    unfolding td by (rule table_data_length)
  have st: "t_total_col_idx td = length (t_specs td) + 2" "t_total_col_idx td \<le> t_total_cols td"
    unfolding td using table_total_col_idx[of to_float date_str "(type_name, grp)"] by simp_all
  have stc: "0 < t_total_cols td"
    unfolding td using table_cols_min[of to_float date_str "(type_name, grp)"] by (simp add: min_columns_def)
  have g1: "snd (type_block ws td r) = r + t_data_rows td + 2"
    by (rule summary_end_row)
  have g2: "t_data_rows td = card (r_color ` set grp)"
    unfolding td by (simp add: table_data_rows)
  have sdm: "\<And>w. dom (cells (fst (type_block w td r)))
        = dom (cells w) \<union> ({(r, 1)} \<union> {r + 1 .. r + t_data_rows td + 2} \<times> {1 ..< 1 + t_total_cols td})"
    by (rule summary_dom[OF sd st])
  have g3: "dom (cells (fst (type_block ws td r)))
        = dom (cells ws) \<union> ({(r, 1)} \<union> {r + 1 .. r + t_data_rows td + 2} \<times> {1 ..< 1 + t_total_cols td})"
    by (rule sdm)
  have g4: "fst ` dom (cells (fst (type_block new_sheet td r))) = {r .. r + t_data_rows td + 2}"
    unfolding sdm e Un_empty_left by (rule block_rows_set[OF stc])
  have g5: "merged (fst (type_block ws td r)) = merged ws @ [(r, 1, r, t_total_cols td)]"
    by (rule summary_merged)
  have g6: "c_value (cell_at (fst (type_block ws td r)) (r, 1)) = Some (Str (t_title td))"
    by (rule summary_title_cell)
  have g7: "\<forall>j < t_total_cols td.
          c_value (cell_at (fst (type_block ws td r)) (r + 1, 1 + j)) = Some (Str (t_headers td ! j))"
    using summary_header_cell by blast
  have g8: "\<forall>k < t_data_rows td.
          t_data td ! k ! 0 = Str (sorted_unique (map r_color grp) ! k)
          \<and> (\<forall>j < t_total_cols td.
                c_value (cell_at (fst (type_block ws td r)) (r + 2 + k, 1 + j)) = Some (t_data td ! k ! j))"
  proof (intro allI impI conjI)
    fix k assume k: "k < t_data_rows td"
    then show "t_data td ! k ! 0 = Str (sorted_unique (map r_color grp) ! k)"
      unfolding td using table_row_first[of k to_float date_str "(type_name, grp)"] by simp
    fix j assume j: "j < t_total_cols td"
    from k sd have "t_data td ! k \<in> set (t_data td)" by simp
    then have "length (t_data td ! k) = t_total_cols td"
      unfolding td by (rule table_row_length)
    with j have "j < length (t_data td ! k)" by simp
    with k j show "c_value (cell_at (fst (type_block ws td r)) (r + 2 + k, 1 + j)) = Some (t_data td ! k ! j)"
      using summary_data_cell[OF sd] by blast
  qed
  have g9: "c_value (cell_at (fst (type_block ws td r)) (r + t_data_rows td + 2, 1)) = Some (Str lbl_total)"
    by (rule summary_total_label) (simp add: st(1))
  show ?thesis
    by (intro conjI) (fact f1 f2 f3 f4 f5 f6 f7 f8 f9 g1 g2 g3 g4 g5 g6 g7 g8 g9)+
qed

theorem rendered_block_rows_witness:
  "struct scenario_pattern = get_pattern_table_structure scenario_A
   \<and> scenario_table = snd (type_aggregation decimal_of ''2026-01-01'' (''A'', scenario_A))
   \<and> row_count (struct scenario_pattern) = 2
   \<and> snd (generate_single_pattern_block new_sheet scenario_pattern 1 12) = 5
   \<and> fst ` dom (cells (fst (generate_single_pattern_block new_sheet scenario_pattern 1 12))) = {1 .. 5}
   \<and> (0 < total_cols (struct scenario_pattern)
        \<and> c_value (cell_at (fst (generate_single_pattern_block new_sheet scenario_pattern 1 12)) (2, 12))
            = Some (Str lbl_color))
   \<and> (1 < row_count (struct scenario_pattern)
        \<and> c_value (cell_at (fst (generate_single_pattern_block new_sheet scenario_pattern 1 12)) (4, 12))
            = Some (Str ''Red''))
   \<and> t_data_rows scenario_table = 2
   \<and> snd (type_block new_sheet scenario_table 1) = 5
   \<and> fst ` dom (cells (fst (type_block new_sheet scenario_table 1))) = {1 .. 5}
   \<and> (1 < t_data_rows scenario_table \<and> 0 < t_total_cols scenario_table
        \<and> c_value (cell_at (fst (type_block new_sheet scenario_table 1)) (4, 1)) = Some (Str ''Red''))"
proof -
  have p: "struct scenario_pattern = get_pattern_table_structure scenario_A"
    by (simp add: scenario_pattern_def)
  have td: "scenario_table = snd (type_aggregation decimal_of ''2026-01-01'' (''A'', scenario_A))"
    by (simp add: scenario_table_def)
  note t = rendered_block_rows[OF p td, of new_sheet 1 12]
  have rc: "row_count (struct scenario_pattern) = 2" by code_simp
  have rc1: "1 < row_count (struct scenario_pattern)" by (simp add: rc)
  have tc: "0 < total_cols (struct scenario_pattern)" by code_simp
  have h0: "headers (struct scenario_pattern) ! 0 = lbl_color" by code_simp
  have c1: "data (struct scenario_pattern) ! 1 ! 0 = Str ''Red''" by code_simp
  have src: "t_data_rows scenario_table = 2" by code_simp
  have src1: "1 < t_data_rows scenario_table" by (simp add: src)
  have stc: "0 < t_total_cols scenario_table" by code_simp
  have sc1: "t_data scenario_table ! 1 ! 0 = Str ''Red''" by code_simp
  have n: "(1::nat) + 1 = 2" "(12::nat) + 0 = 12" "(1::nat) + 2 + 1 = 4" "(1::nat) + 0 = 1"
    "(1::nat) + 2 + 2 = 5"
    by simp_all
  have e: "snd (generate_single_pattern_block new_sheet scenario_pattern 1 12) = 5"
    using t[THEN conjunct1, unfolded rc n] .
  have r: "fst ` dom (cells (fst (generate_single_pattern_block new_sheet scenario_pattern 1 12))) = {1 .. 5}"
    using t[THEN conjunct2, THEN conjunct2, THEN conjunct2, THEN conjunct1, unfolded rc n] .
  have a1: "c_value (cell_at (fst (generate_single_pattern_block new_sheet scenario_pattern 1 12)) (2, 12))
      = Some (Str lbl_color)"
    using t[THEN conjunct2, THEN conjunct2, THEN conjunct2, THEN conjunct2, THEN conjunct2, THEN conjunct2, THEN conjunct1, rule_format, OF tc, unfolded n h0] .
  have a2: "c_value (cell_at (fst (generate_single_pattern_block new_sheet scenario_pattern 1 12)) (4, 12))
      = Some (Str ''Red'')"
    using t[THEN conjunct2, THEN conjunct2, THEN conjunct2, THEN conjunct2, THEN conjunct2, THEN conjunct2, THEN conjunct2, THEN conjunct1, rule_format, OF rc1, THEN conjunct2, rule_format, OF tc, unfolded n c1] .
  have se: "snd (type_block new_sheet scenario_table 1) = 5"
    using t[THEN conjunct2, THEN conjunct2, THEN conjunct2, THEN conjunct2, THEN conjunct2, THEN conjunct2, THEN conjunct2, THEN conjunct2, THEN conjunct2, THEN conjunct1, unfolded src n] .
  have sr: "fst ` dom (cells (fst (type_block new_sheet scenario_table 1))) = {1 .. 5}"
    using t[THEN conjunct2, THEN conjunct2, THEN conjunct2, THEN conjunct2, THEN conjunct2, THEN conjunct2, THEN conjunct2, THEN conjunct2, THEN conjunct2, THEN conjunct2, THEN conjunct2, THEN conjunct2, THEN conjunct1, unfolded src n] .
  have a3: "c_value (cell_at (fst (type_block new_sheet scenario_table 1)) (4, 1)) = Some (Str ''Red'')"
    using t[THEN conjunct2, THEN conjunct2, THEN conjunct2, THEN conjunct2, THEN conjunct2, THEN conjunct2, THEN conjunct2, THEN conjunct2, THEN conjunct2, THEN conjunct2, THEN conjunct2, THEN conjunct2, THEN conjunct2, THEN conjunct2, THEN conjunct2, THEN conjunct2, THEN conjunct1, rule_format, OF src1, THEN conjunct2, rule_format, OF stc, unfolded n sc1] .
  show ?thesis
    by (intro conjI) (fact p td rc e r tc a1 rc1 a2 src se sr src1 stc a3)+
qed

section \<open>Total cells\<close>

text \<open>
  Claim C7 says that the per-row total cell of every data row is a formula too.  The
  aggregator computes the row total and stores the number: on the sheets of
  \<^const>\<open>scenario_A\<close> the row-total cell of the first data row, cell (3, 4), holds the integer
  2 and no formula.
\<close>

theorem row_total_cells_are_literals:
  "c_value (cell_at (fst (summary_of scenario_A)) (3, 4)) = Some (Num 2)
   \<and> \<not> is_formula (c_value (cell_at (fst (summary_of scenario_A)) (3, 4)))
   \<and> t_total_col_idx (snd (hd (calculate_type_aggregation decimal_of ''2026-01-01'' scenario_A))) = 4
   \<and> \<not> is_formula (c_value (cell_at (fst (detail_of scenario_A)) (3, 4)))"
  by code_simp

text \<open>
  Claim C7 as amended: in the total row of every block, detail or summary, the cell of
  each size column inside the block and the cell of the row-total column hold the formula
  \<^verbatim>\<open>SUM\<close> over their own column from the first to the last data row of the block; the
  per-row total cell of each data row holds an integer computed when the table is built
  (on the summary sheet the sum of the colour's quantities over the sizes of the type), not
  a formula.
\<close>

theorem total_row_cells_are_formulas:
  assumes p: "struct p = get_pattern_table_structure grp"
    and td: "td = snd (type_aggregation to_float date_str (type_name, grp))"
  shows
   "(\<forall>j. 1 \<le> j \<and> j < total_cols (struct p)
          \<and> (j \<le> spec_count (struct p) \<or> j + 1 = total_col_idx (struct p)) \<longrightarrow>
        c_value (cell_at (fst (generate_single_pattern_block ws p r c)) (r + row_count (struct p) + 2, c + j))
          = Some (Sum_formula (c + j) (r + 2) (r + row_count (struct p) + 1)))
    \<and> (\<forall>k < row_count (struct p).
          (\<exists>n. c_value (cell_at (fst (generate_single_pattern_block ws p r c))
                   (r + 2 + k, c + (total_col_idx (struct p) - 1))) = Some (Num n))
          \<and> \<not> is_formula (c_value (cell_at (fst (generate_single_pattern_block ws p r c))
                   (r + 2 + k, c + (total_col_idx (struct p) - 1)))))
    \<and> (\<forall>j. 1 \<le> j \<and> (j \<le> length (t_specs td) \<or> j + 1 = t_total_col_idx td) \<longrightarrow>
        c_value (cell_at (fst (type_block ws td r)) (r + t_data_rows td + 2, 1 + j))
          = Some (Sum_formula (1 + j) (r + 2) (r + t_data_rows td + 1)))
    \<and> (\<forall>k < t_data_rows td.
          c_value (cell_at (fst (type_block ws td r)) (r + 2 + k, 1 + (t_total_col_idx td - 1)))
            = Some (Num (sum_list (map (cell_qty grp (sorted_unique (map r_color grp) ! k)) (t_specs td))))
          \<and> \<not> is_formula (c_value (cell_at (fst (type_block ws td r)) (r + 2 + k, 1 + (t_total_col_idx td - 1)))))"
proof -
  have d: "length (data (struct p)) = row_count (struct p)"
    unfolding p by (rule struct_data_length)
  have t: "2 \<le> total_col_idx (struct p)" "total_col_idx (struct p) \<le> total_cols (struct p)"
    unfolding p using struct_total_col_idx_bounds[of grp] by simp_all
  have f1: "\<forall>j. 1 \<le> j \<and> j < total_cols (struct p)
          \<and> (j \<le> spec_count (struct p) \<or> j + 1 = total_col_idx (struct p)) \<longrightarrow>
        c_value (cell_at (fst (generate_single_pattern_block ws p r c)) (r + row_count (struct p) + 2, c + j))
          = Some (Sum_formula (c + j) (r + 2) (r + row_count (struct p) + 1))"
    using detail_total_formula by blast
  have f2: "\<forall>k < row_count (struct p).
          (\<exists>n. c_value (cell_at (fst (generate_single_pattern_block ws p r c))
                   (r + 2 + k, c + (total_col_idx (struct p) - 1))) = Some (Num n))
          \<and> \<not> is_formula (c_value (cell_at (fst (generate_single_pattern_block ws p r c))
                   (r + 2 + k, c + (total_col_idx (struct p) - 1))))"
  proof (intro allI impI)
    fix k assume k: "k < row_count (struct p)"
    from t have j: "total_col_idx (struct p) - 1 < total_cols (struct p)" by arith
    from k obtain n where n: "data (struct p) ! k ! (total_col_idx (struct p) - 1) = Num n"
      unfolding p using struct_row_total_literal by blast
    have "c_value (cell_at (fst (generate_single_pattern_block ws p r c))
                   (r + 2 + k, c + (total_col_idx (struct p) - 1))) = Some (Num n)"
      using detail_data_cell[OF d k j, of ws r c] n by simp
    then show "(\<exists>n. c_value (cell_at (fst (generate_single_pattern_block ws p r c))
                   (r + 2 + k, c + (total_col_idx (struct p) - 1))) = Some (Num n))
          \<and> \<not> is_formula (c_value (cell_at (fst (generate_single_pattern_block ws p r c))
                   (r + 2 + k, c + (total_col_idx (struct p) - 1))))"
      by (simp add: is_formula_def)
  qed
  have sd: "length (t_data td) = t_data_rows td"
    unfolding td by (rule table_data_length)
  have st: "t_total_col_idx td = length (t_specs td) + 2" "t_total_col_idx td \<le> t_total_cols td"
    unfolding td using table_total_col_idx[of to_float date_str "(type_name, grp)"] by simp_all
  have f3: "\<forall>j. 1 \<le> j \<and> (j \<le> length (t_specs td) \<or> j + 1 = t_total_col_idx td) \<longrightarrow>
        c_value (cell_at (fst (type_block ws td r)) (r + t_data_rows td + 2, 1 + j))
          = Some (Sum_formula (1 + j) (r + 2) (r + t_data_rows td + 1))"
    using summary_total_formula by blast
  have f4: "\<forall>k < t_data_rows td.
          c_value (cell_at (fst (type_block ws td r)) (r + 2 + k, 1 + (t_total_col_idx td - 1)))
            = Some (Num (sum_list (map (cell_qty grp (sorted_unique (map r_color grp) ! k)) (t_specs td))))
          \<and> \<not> is_formula (c_value (cell_at (fst (type_block ws td r)) (r + 2 + k, 1 + (t_total_col_idx td - 1))))"
  proof (intro allI impI)
    fix k assume k: "k < t_data_rows td"
    from st have j: "t_total_col_idx td - 1 < t_total_cols td" by arith
    from k sd have "t_data td ! k \<in> set (t_data td)" by simp
    then have "length (t_data td ! k) = t_total_cols td"
      unfolding td by (rule table_row_length)
    with j have jl: "t_total_col_idx td - 1 < length (t_data td ! k)" by simp
    have v: "t_data td ! k ! (t_total_col_idx td - 1)
        = Num (sum_list (map (cell_qty grp (sorted_unique (map r_color grp) ! k)) (t_specs td)))"
      using k unfolding td using table_row_total[of k to_float date_str "(type_name, grp)"] by simp
    have "c_value (cell_at (fst (type_block ws td r)) (r + 2 + k, 1 + (t_total_col_idx td - 1)))
        = Some (Num (sum_list (map (cell_qty grp (sorted_unique (map r_color grp) ! k)) (t_specs td))))"
      using summary_data_cell[OF sd k j jl, of ws r] v by simp
    then show "c_value (cell_at (fst (type_block ws td r)) (r + 2 + k, 1 + (t_total_col_idx td - 1)))
            = Some (Num (sum_list (map (cell_qty grp (sorted_unique (map r_color grp) ! k)) (t_specs td))))
          \<and> \<not> is_formula (c_value (cell_at (fst (type_block ws td r)) (r + 2 + k, 1 + (t_total_col_idx td - 1))))"
      by (simp add: is_formula_def)
  qed
  show ?thesis
    by (intro conjI) (fact f1 f2 f3 f4)+
qed

theorem total_row_cells_are_formulas_witness:
  "struct scenario_pattern = get_pattern_table_structure scenario_A
   \<and> scenario_table = snd (type_aggregation decimal_of ''2026-01-01'' (''A'', scenario_A))
   \<and> ((1::nat) \<le> 2 \<and> 2 < total_cols (struct scenario_pattern) \<and> 2 \<le> spec_count (struct scenario_pattern)
        \<and> c_value (cell_at (fst (generate_single_pattern_block new_sheet scenario_pattern 1 12)) (5, 14))
            = Some (Sum_formula 14 3 4))
   \<and> (0 < row_count (struct scenario_pattern)
        \<and> \<not> is_formula (c_value (cell_at (fst (generate_single_pattern_block new_sheet scenario_pattern 1 12)) (3, 15))))
   \<and> ((1::nat) \<le> 3 \<and> 3 + 1 = t_total_col_idx scenario_table
        \<and> c_value (cell_at (fst (type_block new_sheet scenario_table 1)) (5, 4)) = Some (Sum_formula 4 3 4))
   \<and> (1 < t_data_rows scenario_table
        \<and> c_value (cell_at (fst (type_block new_sheet scenario_table 1)) (4, 4)) = Some (Num 8))"
proof -
  have p: "struct scenario_pattern = get_pattern_table_structure scenario_A"
    by (simp add: scenario_pattern_def)
  have td: "scenario_table = snd (type_aggregation decimal_of ''2026-01-01'' (''A'', scenario_A))"
    by (simp add: scenario_table_def)
  note t = total_row_cells_are_formulas[OF p td, of new_sheet 1 12]
  have rc: "row_count (struct scenario_pattern) = 2" by code_simp
  have rc0: "0 < row_count (struct scenario_pattern)" by (simp add: rc)
  have tc: "2 < total_cols (struct scenario_pattern)" by code_simp
  have sc: "2 \<le> spec_count (struct scenario_pattern)" by code_simp
  have tci: "total_col_idx (struct scenario_pattern) = 4" by code_simp
  have src: "t_data_rows scenario_table = 2" by code_simp
  have src1: "1 < t_data_rows scenario_table" by (simp add: src)
  have stci: "t_total_col_idx scenario_table = 4" by code_simp
  have stci': "3 + 1 = t_total_col_idx scenario_table" by (simp add: stci)
  have sv: "sum_list (map (cell_qty scenario_A (sorted_unique (map r_color scenario_A) ! 1)) (t_specs scenario_table)) = 8"
    by code_simp
  have one2: "(1::nat) \<le> 2" by simp
  have one3: "(1::nat) \<le> 3" by simp
  have n: "(1::nat) + 2 + 2 = 5" "(12::nat) + 2 = 14" "(1::nat) + 2 = 3" "(1::nat) + 2 + 1 = 4"
    "(1::nat) + 2 + 0 = 3" "(3::nat) + 0 = 3" "(3::nat) + 1 = 4" "(3::nat) + 2 = 5" "(12::nat) + (4 - 1) = 15" "(1::nat) + 3 = 4" "(1::nat) + (4 - 1) = 4"
    by simp_all
  have a1: "c_value (cell_at (fst (generate_single_pattern_block new_sheet scenario_pattern 1 12)) (5, 14))
      = Some (Sum_formula 14 3 4)"
    using t[THEN conjunct1, rule_format, of 2, unfolded rc n] one2 tc sc by simp
  have a2: "\<not> is_formula (c_value (cell_at (fst (generate_single_pattern_block new_sheet scenario_pattern 1 12)) (3, 15)))"
    using t[THEN conjunct2, THEN conjunct1, rule_format, OF rc0, THEN conjunct2, unfolded tci n] .
  have a3: "c_value (cell_at (fst (type_block new_sheet scenario_table 1)) (5, 4)) = Some (Sum_formula 4 3 4)"
    using t[THEN conjunct2, THEN conjunct2, THEN conjunct1, rule_format, of 3, unfolded src n] one3 stci' by simp
  have a4: "c_value (cell_at (fst (type_block new_sheet scenario_table 1)) (4, 4)) = Some (Num 8)"
    using t[THEN conjunct2, THEN conjunct2, THEN conjunct2, rule_format, OF src1, THEN conjunct1,
        unfolded stci sv n] .
  show ?thesis
    by (intro conjI) (fact p td one2 tc sc a1 rc0 a2 one3 stci' a3 src1 a4)+
qed

section \<open>Stacking of the summary sheet\<close>

text \<open>
  The blocks of the summary sheet for any aggregation: one per type, in stable descending
  order of width, all at column 1, the first at row 1, each next block
  \<^const>\<open>block_spacing\<close> rows below the total row of the block before it.
\<close>

lemma type_step_block:
  "\<exists>ws'. type_step entry (ws, cur, tr)
     = (ws', cur + t_data_rows (snd entry) + 2 + block_spacing,
        tr @ [\<lparr> b_item = snd entry, b_row = cur, b_col = 1, b_cols = t_total_cols (snd entry),
                 b_end = cur + t_data_rows (snd entry) + 2 \<rparr>])"
  by (simp add: type_step_def Let_def summary_end_row)

lemma fold_type_step_blocks:
  "\<exists>ws' cur'. fold type_step xs (ws, cur, tr) = (ws', cur', tr @ stack_blocks (map snd xs) cur)"
proof (induction xs arbitrary: ws cur tr)
  case Nil
  then show ?case by simp
next
  case (Cons x xs)
  obtain ws1 where s: "type_step x (ws, cur, tr)
     = (ws1, cur + t_data_rows (snd x) + 2 + block_spacing,
        tr @ [\<lparr> b_item = snd x, b_row = cur, b_col = 1, b_cols = t_total_cols (snd x),
                 b_end = cur + t_data_rows (snd x) + 2 \<rparr>])"
    using type_step_block by blast
  from Cons.IH[of ws1 "cur + t_data_rows (snd x) + 2 + block_spacing"
      "tr @ [\<lparr> b_item = snd x, b_row = cur, b_col = 1, b_cols = t_total_cols (snd x),
                 b_end = cur + t_data_rows (snd x) + 2 \<rparr>]"]
  show ?case using s by auto
qed

lemma summary_sheet_blocks:
  "snd (generate_original_type_sheet ws aggregation_data)
     = stack_blocks (map snd (sort_types_desc aggregation_data)) 1"
proof -
  obtain ws' cur' where "fold type_step (sort_types_desc aggregation_data)
      (ws\<lparr> ws_title := sheet_title_summary \<rparr>, 1, [])
    = (ws', cur', [] @ stack_blocks (map snd (sort_types_desc aggregation_data)) 1)"
    using fold_type_step_blocks by blast
  then show ?thesis by (simp add: generate_original_type_sheet_def Let_def)
qed

lemma stack_blocks_length: "length (stack_blocks tds cur) = length tds"
  by (induction tds arbitrary: cur) simp_all

lemma stack_blocks_nth:
  "i < length tds \<Longrightarrow>
     b_item (stack_blocks tds cur ! i) = tds ! i
     \<and> b_col (stack_blocks tds cur ! i) = 1
     \<and> b_cols (stack_blocks tds cur ! i) = t_total_cols (tds ! i)
     \<and> b_end (stack_blocks tds cur ! i) = b_row (stack_blocks tds cur ! i) + t_data_rows (tds ! i) + 2"
proof (induction tds arbitrary: cur i)
  case Nil
  then show ?case by simp
next
  case (Cons td tds)
  then show ?case by (cases i) simp_all
qed

lemma stack_blocks_first: "tds \<noteq> [] \<Longrightarrow> b_row (stack_blocks tds cur ! 0) = cur"
  by (cases tds) simp_all

lemma stack_blocks_next:
  "Suc i < length tds \<Longrightarrow>
     b_row (stack_blocks tds cur ! Suc i) = b_end (stack_blocks tds cur ! i) + block_spacing"
proof (induction tds arbitrary: cur i)
  case Nil
  then show ?case by simp
next
  case (Cons td tds)
  show ?case
  proof (cases i)
    case 0
    with Cons.prems have "tds \<noteq> []" by auto
    from stack_blocks_first[OF this] show ?thesis using 0 by simp
  next
    case (Suc j)
    with Cons.prems have "Suc j < length tds" by simp
    from Cons.IH[OF this] show ?thesis using Suc by simp
  qed
qed

lemma sort_types_desc_widths:
  assumes "i \<le> j" and "j < length aggregation_data"
  shows "t_total_cols (snd (sort_types_desc aggregation_data ! j))
           \<le> t_total_cols (snd (sort_types_desc aggregation_data ! i))"
proof -
  let ?xs = "sort_types_desc aggregation_data"
  have l: "length ?xs = length aggregation_data" by (simp add: sort_types_desc_def)
  have "sorted (map (\<lambda>x. - int (t_total_cols (snd x))) ?xs)"
    by (simp add: sort_types_desc_def)
  with assms l have "map (\<lambda>x. - int (t_total_cols (snd x))) ?xs ! i
      \<le> map (\<lambda>x. - int (t_total_cols (snd x))) ?xs ! j"
    by (intro sorted_nth_mono) simp_all
  with assms l show ?thesis by simp
qed

lemma summary_stack_layout:
  "(let pl = snd (generate_original_type_sheet ws aggregation_data) in
      length pl = length aggregation_data
    \<and> (\<forall>i < length pl.
          b_item (pl ! i) = snd (sort_types_desc aggregation_data ! i)
        \<and> b_col (pl ! i) = 1
        \<and> b_end (pl ! i) = b_row (pl ! i) + t_data_rows (b_item (pl ! i)) + 2)
    \<and> (\<forall>i j. i \<le> j \<and> j < length pl \<longrightarrow> b_cols (pl ! j) \<le> b_cols (pl ! i))
    \<and> (pl \<noteq> [] \<longrightarrow> b_row (pl ! 0) = 1)
    \<and> (\<forall>i. Suc i < length pl \<longrightarrow> b_row (pl ! Suc i) = b_end (pl ! i) + block_spacing))"
proof -
  let ?tds = "map snd (sort_types_desc aggregation_data)"
  have l: "length ?tds = length aggregation_data" by (simp add: sort_types_desc_def)
  have w: "\<forall>i j. i \<le> j \<and> j < length ?tds \<longrightarrow>
      b_cols (stack_blocks ?tds 1 ! j) \<le> b_cols (stack_blocks ?tds 1 ! i)"
  proof (intro allI impI)
    fix i j assume a: "i \<le> j \<and> j < length ?tds"
    then have "i < length ?tds" "j < length ?tds" by auto
    then have "b_cols (stack_blocks ?tds 1 ! j) = t_total_cols (?tds ! j)"
      "b_cols (stack_blocks ?tds 1 ! i) = t_total_cols (?tds ! i)"
      using stack_blocks_nth by blast+
    moreover have "t_total_cols (?tds ! j) \<le> t_total_cols (?tds ! i)"
      using a l sort_types_desc_widths[of i j aggregation_data] by simp
    ultimately show "b_cols (stack_blocks ?tds 1 ! j) \<le> b_cols (stack_blocks ?tds 1 ! i)" by simp
  qed
  have n: "\<forall>i < length ?tds.
          b_item (stack_blocks ?tds 1 ! i) = snd (sort_types_desc aggregation_data ! i)
        \<and> b_col (stack_blocks ?tds 1 ! i) = 1
        \<and> b_end (stack_blocks ?tds 1 ! i) = b_row (stack_blocks ?tds 1 ! i) + t_data_rows (b_item (stack_blocks ?tds 1 ! i)) + 2"
    using stack_blocks_nth[of _ ?tds 1] by simp
  have f: "stack_blocks ?tds 1 \<noteq> [] \<longrightarrow> b_row (stack_blocks ?tds 1 ! 0) = 1"
  proof
    assume "stack_blocks ?tds 1 \<noteq> []"
    then have "?tds \<noteq> []" by (cases ?tds) simp_all
    then show "b_row (stack_blocks ?tds 1 ! 0) = 1" by (rule stack_blocks_first)
  qed
  have x: "\<forall>i. Suc i < length ?tds \<longrightarrow>
      b_row (stack_blocks ?tds 1 ! Suc i) = b_end (stack_blocks ?tds 1 ! i) + block_spacing"
    using stack_blocks_next by blast
  show ?thesis
    unfolding Let_def summary_sheet_blocks stack_blocks_length l[symmetric]
    using w n f x by (intro conjI) simp_all
qed

section \<open>Blocks do not overlap\<close>

text \<open>
  On the summary sheet of any aggregation and on the detail sheet of any record set, the
  rectangles of two different blocks share no cell: the blocks of a pair lie side by side,
  the left one ending before the right anchor column because a detail table has at most
  \<^const>\<open>max_columns\<close> columns, and every later block starts below the total rows of the
  earlier ones.
\<close>

lemma fold_place_group_blocks:
  "\<exists>ws' cur'. fold (place_group tn ds) gs (ws, cur, tr) = (ws', cur', tr @ sheet_blocks tn ds gs cur)"
proof (induction gs arbitrary: ws cur tr)
  case Nil
  then show ?case by simp
next
  case (Cons g gs)
  obtain ws1 where s: "place_group tn ds g (ws, cur, tr) = (ws1, band_next g cur, tr @ band_blocks tn ds g cur)"
    using place_group_blocks by blast
  from Cons.IH[of ws1 "band_next g cur" "tr @ band_blocks tn ds g cur"]
  show ?case using s by auto
qed

lemma detail_sheet_blocks:
  "snd (generate_type_pattern_sheet ds ws tn type_data) = sheet_blocks tn ds (pattern_groups_of type_data) 1"
proof -
  obtain ws' cur' where "fold (place_group tn ds) (pattern_groups_of type_data)
      (ws\<lparr> ws_title := tn @ sheet_suffix_detail \<rparr>, 1, [])
    = (ws', cur', [] @ sheet_blocks tn ds (pattern_groups_of type_data) 1)"
    using fold_place_group_blocks by blast
  then show ?thesis by (simp add: generate_type_pattern_sheet_def Let_def)
qed

lemma apart_rows: "b_end a < b_row b \<Longrightarrow> apart a b"
  by (auto simp: apart_def rect_def)

lemma apart_cols: "b_col a + b_cols a \<le> b_col b \<Longrightarrow> apart a b"
  by (auto simp: apart_def rect_def)

lemma band_blocks_rows:
  "b \<in> set (band_blocks tn ds g cur) \<Longrightarrow> cur \<le> b_row b \<and> b_end b < band_next g cur"
proof (induction tn ds g cur rule: band_blocks.induct)
  case (1 tn ds cur)
  then show ?case by simp
next
  case (2 tn ds p1 cur)
  then show ?case by (auto simp: block_at_def block_spacing_def)
next
  case (3 tn ds p1 p2 rest cur)
  let ?cur' = "max (cur + row_count (struct p1) + 2) (cur + row_count (struct p2) + 2) + block_spacing"
  have mono: "\<And>g c. c \<le> band_next g c"
  proof -
    fix g c show "c \<le> band_next g c"
      by (induction g c rule: band_next.induct) auto
  qed
  from "3.prems" consider "b = block_at tn ds p1 cur left_start_col"
    | "b = block_at tn ds p2 cur right_start_col" | "b \<in> set (band_blocks tn ds rest ?cur')" by auto
  then show ?case
  proof cases
    case 1
    then show ?thesis using mono[of ?cur' rest] by (auto simp: block_at_def block_spacing_def)
  next
    case 2
    then show ?thesis using mono[of ?cur' rest] by (auto simp: block_at_def block_spacing_def)
  next
    case 3
    from "3.IH"[OF this] show ?thesis by auto
  qed
qed

lemma band_blocks_apart:
  assumes "\<forall>p \<in> set g. total_cols (struct p) \<le> max_columns"
  shows "sorted_wrt apart (band_blocks tn ds g cur)"
  using assms
proof (induction tn ds g cur rule: band_blocks.induct)
  case (1 tn ds cur)
  then show ?case by simp
next
  case (2 tn ds p1 cur)
  then show ?case by simp
next
  case (3 tn ds p1 p2 rest cur)
  let ?cur' = "max (cur + row_count (struct p1) + 2) (cur + row_count (struct p2) + 2) + block_spacing"
  have lr: "apart (block_at tn ds p1 cur left_start_col) (block_at tn ds p2 cur right_start_col)"
    using "3.prems"
    by (intro apart_cols) (simp add: block_at_def left_start_col_def right_start_col_def max_columns_def)
  have l: "\<forall>b \<in> set (band_blocks tn ds rest ?cur'). apart (block_at tn ds p1 cur left_start_col) b"
  proof
    fix b assume "b \<in> set (band_blocks tn ds rest ?cur')"
    from band_blocks_rows[OF this] show "apart (block_at tn ds p1 cur left_start_col) b"
      by (intro apart_rows) (auto simp: block_at_def block_spacing_def)
  qed
  have r: "\<forall>b \<in> set (band_blocks tn ds rest ?cur'). apart (block_at tn ds p2 cur right_start_col) b"
  proof
    fix b assume "b \<in> set (band_blocks tn ds rest ?cur')"
    from band_blocks_rows[OF this] show "apart (block_at tn ds p2 cur right_start_col) b"
      by (intro apart_rows) (auto simp: block_at_def block_spacing_def)
  qed
  from "3.prems" have "\<forall>p \<in> set rest. total_cols (struct p) \<le> max_columns" by simp
  from "3.IH"[OF this] lr l r show ?case by simp
qed

lemma sheet_blocks_rows:
  "b \<in> set (sheet_blocks tn ds gs cur) \<Longrightarrow> cur \<le> b_row b"
proof (induction gs arbitrary: cur)
  case Nil
  then show ?case by simp
next
  case (Cons g gs)
  have mono: "cur \<le> band_next g cur"
    by (induction g cur rule: band_next.induct) auto
  from Cons.prems consider "b \<in> set (band_blocks tn ds g cur)"
    | "b \<in> set (sheet_blocks tn ds gs (band_next g cur))" by auto
  then show ?case
  proof cases
    case 1
    from band_blocks_rows[OF this] show ?thesis by simp
  next
    case 2
    from Cons.IH[OF this] mono show ?thesis by simp
  qed
qed

lemma sheet_blocks_apart:
  assumes "\<forall>g \<in> set gs. \<forall>p \<in> set g. total_cols (struct p) \<le> max_columns"
  shows "sorted_wrt apart (sheet_blocks tn ds gs cur)"
  using assms
proof (induction gs arbitrary: cur)
  case Nil
  then show ?case by simp
next
  case (Cons g gs)
  have a: "sorted_wrt apart (band_blocks tn ds g cur)"
    using Cons.prems by (intro band_blocks_apart) simp
  have b: "sorted_wrt apart (sheet_blocks tn ds gs (band_next g cur))"
    using Cons.prems by (intro Cons.IH) simp
  have c: "\<forall>x \<in> set (band_blocks tn ds g cur). \<forall>y \<in> set (sheet_blocks tn ds gs (band_next g cur)). apart x y"
  proof (intro ballI)
    fix x y assume x: "x \<in> set (band_blocks tn ds g cur)"
      and y: "y \<in> set (sheet_blocks tn ds gs (band_next g cur))"
    from band_blocks_rows[OF x] sheet_blocks_rows[OF y] show "apart x y"
      by (intro apart_rows) simp
  qed
  from a b c show ?case by (simp add: sorted_wrt_append)
qed

lemma pattern_groups_widths:
  "g \<in> set (pattern_groups_of type_data) \<Longrightarrow> p \<in> set g \<Longrightarrow> total_cols (struct p) \<le> max_columns"
proof -
  assume g: "g \<in> set (pattern_groups_of type_data)" and p: "p \<in> set g"
  define xs where "xs = sort_patterns_by_columns (groupby r_pattern type_data) ''asc''"
  from g have "set g \<subseteq> set xs"
    unfolding pattern_groups_of_def group_by_column_range_def xs_def[symmetric]
    by (auto split: if_splits)
  with p have "p \<in> set xs" by auto
  then obtain grp where "struct p = get_pattern_table_structure grp"
    by (auto simp: xs_def sort_patterns_by_columns_def Let_def)
  then show ?thesis using struct_cols_bounds[of grp] by simp
qed

lemma stack_blocks_rows: "b \<in> set (stack_blocks tds cur) \<Longrightarrow> cur \<le> b_row b"
proof (induction tds arbitrary: cur)
  case Nil
  then show ?case by simp
next
  case (Cons td tds)
  from Cons.prems consider "b_row b = cur" | "b \<in> set (stack_blocks tds (cur + t_data_rows td + 2 + block_spacing))"
    by auto
  then show ?case
  proof cases
    case 1
    then show ?thesis by simp
  next
    case 2
    from Cons.IH[OF this] show ?thesis by simp
  qed
qed

lemma stack_blocks_apart: "sorted_wrt apart (stack_blocks tds cur)"
proof (induction tds arbitrary: cur)
  case Nil
  then show ?case by simp
next
  case (Cons td tds)
  have "\<forall>b \<in> set (stack_blocks tds (cur + t_data_rows td + 2 + block_spacing)).
      apart \<lparr> b_item = td, b_row = cur, b_col = 1, b_cols = t_total_cols td, b_end = cur + t_data_rows td + 2 \<rparr> b"
  proof
    fix b assume "b \<in> set (stack_blocks tds (cur + t_data_rows td + 2 + block_spacing))"
    from stack_blocks_rows[OF this]
    show "apart \<lparr> b_item = td, b_row = cur, b_col = 1, b_cols = t_total_cols td, b_end = cur + t_data_rows td + 2 \<rparr> b"
      by (intro apart_rows) (simp add: block_spacing_def)
  qed
  with Cons.IH show ?case by simp
qed

lemma blocks_do_not_overlap:
  "(\<forall>i j. i < j \<and> j < length (snd (generate_original_type_sheet ws aggregation_data)) \<longrightarrow>
       rect (snd (generate_original_type_sheet ws aggregation_data) ! i)
         \<inter> rect (snd (generate_original_type_sheet ws aggregation_data) ! j) = {})
   \<and> (\<forall>i j. i < j \<and> j < length (snd (generate_type_pattern_sheet date_str ws' type_name type_data)) \<longrightarrow>
       rect (snd (generate_type_pattern_sheet date_str ws' type_name type_data) ! i)
         \<inter> rect (snd (generate_type_pattern_sheet date_str ws' type_name type_data) ! j) = {})"
proof -
  have a: "sorted_wrt apart (snd (generate_original_type_sheet ws aggregation_data))"
    unfolding summary_sheet_blocks by (rule stack_blocks_apart)
  have b: "sorted_wrt apart (snd (generate_type_pattern_sheet date_str ws' type_name type_data))"
    unfolding detail_sheet_blocks
    by (rule sheet_blocks_apart) (use pattern_groups_widths in blast)
  from a b show ?thesis
    by (auto simp: sorted_wrt_iff_nth_less apart_def)
qed

section \<open>Packing of the detail sheets\<close>

text \<open>The loops that format the cells between and below the blocks of a pair.\<close>

lemma column_loop_cell_at:
  "cell_at (fold (\<lambda>row. upd_cell row col f) [a ..< b] ws) (r, c)
     = (if c = col \<and> a \<le> r \<and> r < b then f (cell_at ws (r, c)) else cell_at ws (r, c))"
proof (induction b arbitrary: r c)
  case 0
  then show ?case by auto
next
  case (Suc b)
  show ?case
    by (simp add: cell_at_upd_cell Suc; auto)
qed

lemma column_loop_dom:
  "dom (cells (fold (\<lambda>row. upd_cell row col f) [a ..< b] ws)) = dom (cells ws) \<union> {a ..< b} \<times> {col}"
  by (induction b) (auto simp: dom_upd_cell)

lemma column_loop_merged:
  "merged (fold (\<lambda>row. upd_cell row col f) [a ..< b] ws) = merged ws"
  by (induction b) (auto simp: merged_upd_cell)

lemma area_loop_cell_at:
  "cell_at (fold (\<lambda>row. fold (\<lambda>col. upd_cell row col f) [c1 ..< c2]) [r1 ..< r2] ws) (r, c)
     = (if r1 \<le> r \<and> r < r2 \<and> c1 \<le> c \<and> c < c2 then f (cell_at ws (r, c)) else cell_at ws (r, c))"
proof (induction r2 arbitrary: r c)
  case 0
  then show ?case by auto
next
  case (Suc r2)
  show ?case
    by (simp add: range_loop_cell_at Suc; auto)
qed

lemma area_loop_dom:
  "dom (cells (fold (\<lambda>row. fold (\<lambda>col. upd_cell row col f) [c1 ..< c2]) [r1 ..< r2] ws))
     = dom (cells ws) \<union> {r1 ..< r2} \<times> {c1 ..< c2}"
  by (induction r2) (auto simp: range_loop_dom)

lemma area_loop_merged:
  "merged (fold (\<lambda>row. fold (\<lambda>col. upd_cell row col f) [c1 ..< c2]) [r1 ..< r2] ws) = merged ws"
  by (induction r2) (auto simp: range_loop_merged)

text \<open>The sheet after one pair: the blocks, then the spacer column, then the cleared area.\<close>

lemma pair_step_sheet_single:
  "fst (pair_step tn ds p1 None (ws, cur, tr))
     = fold (\<lambda>row. fold (\<lambda>col. upd_cell row col unborder_cell)
                 [left_start_col + total_cols (struct p1) + 1 ..< right_start_col])
         [cur + row_count (struct p1) + 2 ..< cur + row_count (struct p1) + 2 + block_spacing]
         (fold (\<lambda>row. upd_cell row (left_start_col + total_cols (struct p1)) blank_cell)
            [cur + row_count (struct p1) + 2 ..< cur + row_count (struct p1) + 2 + 1]
            (fst (generate_single_pattern_block ws (p1\<lparr> p_title := block_title tn (p_name p1) ds \<rparr>)
                    cur left_start_col)))"
  by (simp add: pair_step_def Let_def block_end_row format_blank_column_def)

lemma pair_step_sheet_pair:
  "fst (pair_step tn ds p1 (Some p2) (ws, cur, tr))
     = fold (\<lambda>row. fold (\<lambda>col. upd_cell row col unborder_cell)
                 [left_start_col + total_cols (struct p1) + 1 ..< right_start_col])
         [max (cur + row_count (struct p1) + 2) (cur + row_count (struct p2) + 2)
          ..< max (cur + row_count (struct p1) + 2) (cur + row_count (struct p2) + 2) + block_spacing]
         (fold (\<lambda>row. upd_cell row (left_start_col + total_cols (struct p1)) blank_cell)
            [max (cur + row_count (struct p1) + 2) (cur + row_count (struct p2) + 2)
             ..< max (cur + row_count (struct p1) + 2) (cur + row_count (struct p2) + 2) + 1]
            (fst (generate_single_pattern_block
                    (fst (generate_single_pattern_block ws (p1\<lparr> p_title := block_title tn (p_name p1) ds \<rparr>)
                            cur left_start_col))
                    (p2\<lparr> p_title := block_title tn (p_name p2) ds \<rparr>) cur right_start_col)))"
  by (simp add: pair_step_def Let_def block_end_row format_blank_column_def)

lemma well_formed_aggregated:
  "struct p = get_pattern_table_structure grp \<Longrightarrow> well_formed p"
  using struct_data_length[of grp] struct_total_col_idx_bounds[of grp] struct_cols_bounds[of grp]
  by (simp add: well_formed_def)

lemma well_formed_titled: "well_formed (p\<lparr> p_title := t \<rparr>) = well_formed p"
  by (simp add: well_formed_def)

lemma cells_eqI:
  assumes "(p \<in> dom (cells a)) = (p \<in> dom (cells b))" and "cell_at a p = cell_at b p"
  shows "cells a p = cells b p"
proof (cases "cells a p")
  case None
  with assms(1) show ?thesis by (auto simp: dom_def)
next
  case (Some x)
  with assms(1) obtain y where y: "cells b p = Some y" by (auto simp: dom_def)
  with Some assms(2) show ?thesis by (simp add: cell_at_def)
qed

lemma column_loop_outside:
  "c \<noteq> col \<or> r < a \<or> b \<le> r \<Longrightarrow>
     cells (fold (\<lambda>row. upd_cell row col f) [a ..< b] ws) (r, c) = cells ws (r, c)"
  by (rule cells_eqI) (auto simp: column_loop_dom column_loop_cell_at)

lemma area_loop_outside:
  "r < r1 \<or> r2 \<le> r \<or> c < c1 \<or> c2 \<le> c \<Longrightarrow>
     cells (fold (\<lambda>row. fold (\<lambda>col. upd_cell row col f) [c1 ..< c2]) [r1 ..< r2] ws) (r, c) = cells ws (r, c)"
  by (rule cells_eqI) (auto simp: area_loop_dom area_loop_cell_at)

lemma detail_cells_outside:
  assumes w: "well_formed p"
    and out: "r' < r \<or> r + row_count (struct p) + 2 < r' \<or> c' < c \<or> c + total_cols (struct p) \<le> c'"
  shows "cells (fst (generate_single_pattern_block ws p r c)) (r', c') = cells ws (r', c')"
proof (rule cells_eqI)
  from w have d: "length (data (struct p)) = row_count (struct p)"
    and t: "2 \<le> total_col_idx (struct p)" "total_col_idx (struct p) \<le> total_cols (struct p)"
    by (simp_all add: well_formed_def)
  from t have tc: "0 < total_cols (struct p)" by simp
  from out tc have "(r', c') \<notin> {(r, c)} \<union> {r + 1 .. r + row_count (struct p) + 2} \<times> {c ..< c + total_cols (struct p)}"
    by auto
  then show "((r', c') \<in> dom (cells (fst (generate_single_pattern_block ws p r c)))) = ((r', c') \<in> dom (cells ws))"
    unfolding detail_dom[OF d t] by blast
  from t have t1: "1 \<le> total_col_idx (struct p)" by simp
  from out show "cell_at (fst (generate_single_pattern_block ws p r c)) (r', c') = cell_at ws (r', c')"
    by (intro detail_outside[OF d t1 t(2)]) blast
qed

lemma pair_step_next_single:
  "fst (snd (pair_step tn ds p1 None (ws, cur, tr))) = cur + row_count (struct p1) + 2 + block_spacing"
  using pair_step_single[of tn ds p1 ws cur tr] by auto

lemma pair_step_next_pair:
  "fst (snd (pair_step tn ds p1 (Some p2) (ws, cur, tr)))
     = max (cur + row_count (struct p1) + 2) (cur + row_count (struct p2) + 2) + block_spacing"
  using pair_step_pair[of tn ds p1 p2 ws cur tr] by auto

lemma pair_frame_single:
  assumes w: "well_formed p1"
    and r: "r < cur \<or> cur + row_count (struct p1) + 2 + block_spacing \<le> r \<or> right_start_col \<le> c"
  shows "cells (fst (pair_step tn ds p1 None (ws, cur, tr))) (r, c) = cells ws (r, c)"
proof -
  let ?p1 = "p1\<lparr> p_title := block_title tn (p_name p1) ds \<rparr>"
  have w1: "well_formed ?p1" using w by (simp add: well_formed_titled)
  from w have tc: "total_cols (struct p1) \<le> 10" by (simp add: well_formed_def max_columns_def)
  have a: "cells (fst (generate_single_pattern_block ws ?p1 cur left_start_col)) (r, c) = cells ws (r, c)"
    using r tc by (intro detail_cells_outside[OF w1]) (auto simp: block_spacing_def left_start_col_def right_start_col_def)
  have s1: "r < cur + row_count (struct p1) + 2 \<or> cur + row_count (struct p1) + 2 + block_spacing \<le> r
      \<or> c < left_start_col + total_cols (struct p1) + 1 \<or> right_start_col \<le> c"
    using r by auto
  have s2: "c \<noteq> left_start_col + total_cols (struct p1) \<or> r < cur + row_count (struct p1) + 2
      \<or> cur + row_count (struct p1) + 2 + 1 \<le> r"
    using r tc by (auto simp: block_spacing_def left_start_col_def right_start_col_def)
  show ?thesis
    unfolding pair_step_sheet_single area_loop_outside[OF s1] column_loop_outside[OF s2]
    by (rule a)
qed

lemma pair_frame_pair:
  assumes w: "well_formed p1" "well_formed p2"
    and r: "r < cur \<or> max (cur + row_count (struct p1) + 2) (cur + row_count (struct p2) + 2) + block_spacing \<le> r"
  shows "cells (fst (pair_step tn ds p1 (Some p2) (ws, cur, tr))) (r, c) = cells ws (r, c)"
proof -
  let ?p1 = "p1\<lparr> p_title := block_title tn (p_name p1) ds \<rparr>"
  let ?p2 = "p2\<lparr> p_title := block_title tn (p_name p2) ds \<rparr>"
  let ?ws1 = "fst (generate_single_pattern_block ws ?p1 cur left_start_col)"
  have w1: "well_formed ?p1" "well_formed ?p2" using w by (simp_all add: well_formed_titled)
  have a: "cells ?ws1 (r, c) = cells ws (r, c)"
    using r by (intro detail_cells_outside[OF w1(1)]) (auto simp: block_spacing_def)
  have b: "cells (fst (generate_single_pattern_block ?ws1 ?p2 cur right_start_col)) (r, c) = cells ?ws1 (r, c)"
    using r by (intro detail_cells_outside[OF w1(2)]) (auto simp: block_spacing_def)
  let ?E = "max (cur + row_count (struct p1) + 2) (cur + row_count (struct p2) + 2)"
  have s1: "r < ?E \<or> ?E + block_spacing \<le> r
      \<or> c < left_start_col + total_cols (struct p1) + 1 \<or> right_start_col \<le> c"
    using r by auto
  have s2: "c \<noteq> left_start_col + total_cols (struct p1) \<or> r < ?E \<or> ?E + 1 \<le> r"
    using r by (auto simp: block_spacing_def)
  show ?thesis
    unfolding pair_step_sheet_pair area_loop_outside[OF s1] column_loop_outside[OF s2]
    using a b by simp
qed

lemma pair_merged_single:
  "merged (fst (pair_step tn ds p1 None (ws, cur, tr)))
     = merged ws @ [(cur, left_start_col, cur, left_start_col + total_cols (struct p1) - 1)]"
  unfolding pair_step_sheet_single area_loop_merged column_loop_merged detail_merged
  by simp

lemma pair_merged_pair:
  "merged (fst (pair_step tn ds p1 (Some p2) (ws, cur, tr)))
     = merged ws @ [(cur, left_start_col, cur, left_start_col + total_cols (struct p1) - 1),
                    (cur, right_start_col, cur, right_start_col + total_cols (struct p2) - 1)]"
  unfolding pair_step_sheet_pair area_loop_merged column_loop_merged detail_merged
  by simp

lemma drawn_block:
  assumes w: "well_formed p"
  shows "drawn (fst (generate_single_pattern_block ws p r c))
           \<lparr> b_item = p, b_row = r, b_col = c, b_cols = total_cols (struct p),
             b_end = r + row_count (struct p) + 2 \<rparr>"
proof -
  from w have d: "length (data (struct p)) = row_count (struct p)"
    and t: "2 \<le> total_col_idx (struct p)"
    by (simp_all add: well_formed_def)
  show ?thesis
    unfolding drawn_def title_range_def
    using detail_merged[of ws p r c] detail_title_cell[of ws p r c] detail_header_cell[of _ p ws r c]
      detail_data_cell[OF d, of _ _ ws r c] detail_total_label[OF t, of ws r c]
    by simp
qed

lemma drawn_cong:
  assumes m: "set (merged ws) \<subseteq> set (merged ws')"
    and c: "\<And>r c. b_row b \<le> r \<Longrightarrow> r \<le> b_end b \<Longrightarrow> b_col b \<le> c \<Longrightarrow> c < b_col b + b_cols b
              \<Longrightarrow> cells ws' (r, c) = cells ws (r, c)"
    and e: "b_end b = b_row b + row_count (struct (b_item b)) + 2"
    and n: "0 < b_cols b"
    and d: "drawn ws b"
  shows "drawn ws' b"
proof -
  have v: "\<And>r c. b_row b \<le> r \<Longrightarrow> r \<le> b_end b \<Longrightarrow> b_col b \<le> c \<Longrightarrow> c < b_col b + b_cols b
              \<Longrightarrow> cell_at ws' (r, c) = cell_at ws (r, c)"
    using c by (simp add: cell_at_def)
  have a1: "title_range b \<in> set (merged ws')" using m d by (auto simp: drawn_def)
  have a2: "c_value (cell_at ws' (b_row b, b_col b)) = Some (Str (p_title (b_item b)))"
    using v[of "b_row b" "b_col b"] e n d by (simp add: drawn_def)
  have a3: "\<forall>j < b_cols b.
          c_value (cell_at ws' (b_row b + 1, b_col b + j)) = Some (Str (headers (struct (b_item b)) ! j))"
  proof (intro allI impI)
    fix j assume j: "j < b_cols b"
    then have "cell_at ws' (b_row b + 1, b_col b + j) = cell_at ws (b_row b + 1, b_col b + j)"
      using e by (intro v) simp_all
    with j d show "c_value (cell_at ws' (b_row b + 1, b_col b + j)) = Some (Str (headers (struct (b_item b)) ! j))"
      by (simp add: drawn_def)
  qed
  have a4: "\<forall>k < row_count (struct (b_item b)). \<forall>j < b_cols b.
          c_value (cell_at ws' (b_row b + 2 + k, b_col b + j)) = Some (data (struct (b_item b)) ! k ! j)"
  proof (intro allI impI)
    fix k j assume k: "k < row_count (struct (b_item b))" and j: "j < b_cols b"
    then have "cell_at ws' (b_row b + 2 + k, b_col b + j) = cell_at ws (b_row b + 2 + k, b_col b + j)"
      using e by (intro v) simp_all
    with k j d show "c_value (cell_at ws' (b_row b + 2 + k, b_col b + j)) = Some (data (struct (b_item b)) ! k ! j)"
      by (simp add: drawn_def)
  qed
  have a5: "c_value (cell_at ws' (b_end b, b_col b)) = Some (Str lbl_total)"
    using v[of "b_end b" "b_col b"] e n d by (simp add: drawn_def)
  show ?thesis
    unfolding drawn_def by (intro conjI) (fact a1 a2 a3 a4 a5)+
qed

lemma pair_drawn_single:
  assumes w: "well_formed p1"
  shows "drawn (fst (pair_step tn ds p1 None (ws, cur, tr))) (block_at tn ds p1 cur left_start_col)"
proof -
  let ?p1 = "p1\<lparr> p_title := block_title tn (p_name p1) ds \<rparr>"
  let ?ws1 = "fst (generate_single_pattern_block ws ?p1 cur left_start_col)"
  let ?B = "block_at tn ds p1 cur left_start_col"
  have w1: "well_formed ?p1" using w by (simp add: well_formed_titled)
  from w have tc: "0 < total_cols (struct p1)" by (simp add: well_formed_def)
  have d1: "drawn ?ws1 ?B"
    using drawn_block[OF w1, of ws cur left_start_col] by (simp add: block_at_def)
  have m: "merged (fst (pair_step tn ds p1 None (ws, cur, tr))) = merged ?ws1"
    unfolding pair_step_sheet_single area_loop_merged column_loop_merged by simp
  show ?thesis
  proof (rule drawn_cong[OF _ _ _ _ d1])
    show "set (merged ?ws1) \<subseteq> set (merged (fst (pair_step tn ds p1 None (ws, cur, tr))))"
      using m by simp
    show "b_end ?B = b_row ?B + row_count (struct (b_item ?B)) + 2" by (simp add: block_at_def)
    show "0 < b_cols ?B" using tc by (simp add: block_at_def)
    fix r c assume "b_row ?B \<le> r" "r \<le> b_end ?B" "b_col ?B \<le> c" and c: "c < b_col ?B + b_cols ?B"
    from c have s1: "r < cur + row_count (struct p1) + 2 \<or> cur + row_count (struct p1) + 2 + block_spacing \<le> r
        \<or> c < left_start_col + total_cols (struct p1) + 1 \<or> right_start_col \<le> c"
      by (simp add: block_at_def)
    from c have s2: "c \<noteq> left_start_col + total_cols (struct p1) \<or> r < cur + row_count (struct p1) + 2
        \<or> cur + row_count (struct p1) + 2 + 1 \<le> r"
      by (simp add: block_at_def)
    show "cells (fst (pair_step tn ds p1 None (ws, cur, tr))) (r, c) = cells ?ws1 (r, c)"
      unfolding pair_step_sheet_single area_loop_outside[OF s1] column_loop_outside[OF s2]
      by (rule refl)
  qed
qed

lemma pair_drawn_pair:
  assumes w: "well_formed p1" "well_formed p2"
  shows "drawn (fst (pair_step tn ds p1 (Some p2) (ws, cur, tr))) (block_at tn ds p1 cur left_start_col)
       \<and> drawn (fst (pair_step tn ds p1 (Some p2) (ws, cur, tr))) (block_at tn ds p2 cur right_start_col)"
proof -
  let ?p1 = "p1\<lparr> p_title := block_title tn (p_name p1) ds \<rparr>"
  let ?p2 = "p2\<lparr> p_title := block_title tn (p_name p2) ds \<rparr>"
  let ?ws1 = "fst (generate_single_pattern_block ws ?p1 cur left_start_col)"
  let ?ws2 = "fst (generate_single_pattern_block ?ws1 ?p2 cur right_start_col)"
  let ?E = "max (cur + row_count (struct p1) + 2) (cur + row_count (struct p2) + 2)"
  let ?L = "block_at tn ds p1 cur left_start_col"
  let ?R = "block_at tn ds p2 cur right_start_col"
  let ?res = "fst (pair_step tn ds p1 (Some p2) (ws, cur, tr))"
  have w1: "well_formed ?p1" "well_formed ?p2" using w by (simp_all add: well_formed_titled)
  from w have tc: "0 < total_cols (struct p1)" "total_cols (struct p1) \<le> 10" "0 < total_cols (struct p2)"
    by (simp_all add: well_formed_def max_columns_def)
  have dl1: "drawn ?ws1 ?L"
    using drawn_block[OF w1(1), of ws cur left_start_col] by (simp add: block_at_def)
  have dr2: "drawn ?ws2 ?R"
    using drawn_block[OF w1(2), of ?ws1 cur right_start_col] by (simp add: block_at_def)
  have m2: "merged ?ws2 = merged ?ws1 @ [(cur, right_start_col, cur, right_start_col + total_cols (struct p2) - 1)]"
    by (simp add: detail_merged)
  have m: "merged ?res = merged ?ws2"
    unfolding pair_step_sheet_pair area_loop_merged column_loop_merged by simp
  have dl2: "drawn ?ws2 ?L"
  proof (rule drawn_cong[OF _ _ _ _ dl1])
    show "set (merged ?ws1) \<subseteq> set (merged ?ws2)" unfolding m2 by auto
    show "b_end ?L = b_row ?L + row_count (struct (b_item ?L)) + 2" by (simp add: block_at_def)
    show "0 < b_cols ?L" using tc by (simp add: block_at_def)
    fix r c assume "b_row ?L \<le> r" "r \<le> b_end ?L" "b_col ?L \<le> c" and c: "c < b_col ?L + b_cols ?L"
    from c tc have "c < right_start_col"
      by (simp add: block_at_def left_start_col_def right_start_col_def)
    then show "cells ?ws2 (r, c) = cells ?ws1 (r, c)"
      by (intro detail_cells_outside[OF w1(2)]) simp
  qed
  have spacer: "\<And>r c. c < left_start_col + total_cols (struct p1) \<or> right_start_col \<le> c
      \<Longrightarrow> cells ?res (r, c) = cells ?ws2 (r, c)"
  proof -
    fix r c assume a: "c < left_start_col + total_cols (struct p1) \<or> right_start_col \<le> c"
    then have s1: "r < ?E \<or> ?E + block_spacing \<le> r
        \<or> c < left_start_col + total_cols (struct p1) + 1 \<or> right_start_col \<le> c" by auto
    from a tc have s2: "c \<noteq> left_start_col + total_cols (struct p1) \<or> r < ?E \<or> ?E + 1 \<le> r"
      by (auto simp: left_start_col_def right_start_col_def)
    show "cells ?res (r, c) = cells ?ws2 (r, c)"
      unfolding pair_step_sheet_pair area_loop_outside[OF s1] column_loop_outside[OF s2]
      by (rule refl)
  qed
  have l: "drawn ?res ?L"
  proof (rule drawn_cong[OF _ _ _ _ dl2])
    show "set (merged ?ws2) \<subseteq> set (merged ?res)" using m by simp
    show "b_end ?L = b_row ?L + row_count (struct (b_item ?L)) + 2" by (simp add: block_at_def)
    show "0 < b_cols ?L" using tc by (simp add: block_at_def)
    fix r c assume "b_row ?L \<le> r" "r \<le> b_end ?L" "b_col ?L \<le> c" and c: "c < b_col ?L + b_cols ?L"
    then show "cells ?res (r, c) = cells ?ws2 (r, c)"
      by (intro spacer) (simp add: block_at_def)
  qed
  have r: "drawn ?res ?R"
  proof (rule drawn_cong[OF _ _ _ _ dr2])
    show "set (merged ?ws2) \<subseteq> set (merged ?res)" using m by simp
    show "b_end ?R = b_row ?R + row_count (struct (b_item ?R)) + 2" by (simp add: block_at_def)
    show "0 < b_cols ?R" using tc by (simp add: block_at_def)
    fix r c assume "b_row ?R \<le> r" "r \<le> b_end ?R" and c: "b_col ?R \<le> c" and "c < b_col ?R + b_cols ?R"
    then show "cells ?res (r, c) = cells ?ws2 (r, c)"
      by (intro spacer) (simp add: block_at_def)
  qed
  from l r show ?thesis by simp
qed

lemma band_next_ge: "cur \<le> band_next g cur"
proof (induction g cur rule: band_next.induct)
  case (1 cur)
  show ?case by simp
next
  case (2 p1 cur)
  show ?case by simp
next
  case (3 p1 p2 rest cur)
  have "cur \<le> max (cur + row_count (struct p1) + 2) (cur + row_count (struct p2) + 2) + block_spacing"
    by simp
  with 3 show ?case by simp
qed

lemma band_blocks_shape:
  "b \<in> set (band_blocks tn ds g cur) \<Longrightarrow> \<exists>p \<in> set g. \<exists>r c. b = block_at tn ds p r c"
proof (induction g cur rule: band_next.induct)
  case (1 cur)
  then show ?case by simp
next
  case (2 p1 cur)
  then show ?case by auto
next
  case (3 p1 p2 rest cur)
  let ?n = "max (cur + row_count (struct p1) + 2) (cur + row_count (struct p2) + 2) + block_spacing"
  note IH = 3(1)
  from 3(2) consider (l) "b = block_at tn ds p1 cur left_start_col" | (r) "b = block_at tn ds p2 cur right_start_col"
    | (t) "b \<in> set (band_blocks tn ds rest ?n)" by auto
  then show ?case
  proof cases
    case l then show ?thesis by auto
  next
    case r then show ?thesis by auto
  next
    case t
    from IH[OF this] show ?thesis by auto
  qed
qed

lemma band_blocks_wf:
  assumes w: "\<forall>p \<in> set g. well_formed p" and b: "b \<in> set (band_blocks tn ds g cur)"
  shows "b_end b = b_row b + row_count (struct (b_item b)) + 2 \<and> 0 < b_cols b
         \<and> b_cols b = total_cols (struct (b_item b))"
proof -
  from band_blocks_shape[OF b] obtain p r c where p: "p \<in> set g" and e: "b = block_at tn ds p r c"
    by blast
  from w p have "0 < total_cols (struct p)" by (auto simp: well_formed_def)
  with e show ?thesis by (simp add: block_at_def)
qed

lemma drawn_preserved:
  assumes m: "set (merged ws) \<subseteq> set (merged ws')"
    and c: "\<And>r c. r < n \<Longrightarrow> cells ws' (r, c) = cells ws (r, c)"
    and e: "b_end b = b_row b + row_count (struct (b_item b)) + 2"
    and p: "0 < b_cols b"
    and l: "b_end b < n"
    and d: "drawn ws b"
  shows "drawn ws' b"
proof (rule drawn_cong[OF m _ e p d])
  fix r c assume "r \<le> b_end b"
  with l have "r < n" by simp
  then show "cells ws' (r, c) = cells ws (r, c)" by (rule c)
qed

lemma place_group_frame:
  assumes "\<forall>p \<in> set g. well_formed p" and "r < cur \<or> band_next g cur \<le> r"
  shows "cells (fst (place_group tn ds g (ws, cur, tr))) (r, c) = cells ws (r, c)"
  using assms
proof (induction g cur arbitrary: ws tr rule: band_next.induct)
  case (1 cur)
  show ?case by simp
next
  case (2 p1 cur)
  from 2(1) have w: "well_formed p1" by simp
  from 2(2) have "r < cur \<or> cur + row_count (struct p1) + 2 + block_spacing \<le> r \<or> right_start_col \<le> c"
    by auto
  from pair_frame_single[OF w this] show ?case by simp
next
  case (3 p1 p2 rest cur)
  let ?n = "max (cur + row_count (struct p1) + 2) (cur + row_count (struct p2) + 2) + block_spacing"
  from 3(2) have w: "well_formed p1" "well_formed p2" "\<forall>p \<in> set rest. well_formed p" by simp_all
  obtain ws1 tr1 where ps: "pair_step tn ds p1 (Some p2) (ws, cur, tr) = (ws1, ?n, tr1)"
    using pair_step_pair[of tn ds p1 p2 ws cur tr] by blast
  have c: "cur \<le> ?n" by simp
  from 3(3) c band_next_ge[of ?n rest] have a: "r < cur \<or> ?n \<le> r" by auto
  from 3(3) c have b: "r < ?n \<or> band_next rest ?n \<le> r" by auto
  have "cells ws1 (r, c) = cells ws (r, c)"
    using pair_frame_pair[OF w(1,2) a, where tn = tn and ds = ds and ws = ws and tr = tr and c = c]
    by (simp add: ps)
  with 3(1)[OF w(3) b, of ws1 tr1] show ?case by (simp add: ps)
qed

lemma title_range_block_at:
  "title_range (block_at tn ds p r c) = (r, c, r, c + total_cols (struct p) - 1)"
  by (simp add: title_range_def block_at_def)

lemma place_group_merged:
  "merged (fst (place_group tn ds g (ws, cur, tr))) = merged ws @ map title_range (band_blocks tn ds g cur)"
proof (induction g cur arbitrary: ws tr rule: band_next.induct)
  case (1 cur)
  show ?case by simp
next
  case (2 p1 cur)
  show ?case by (simp add: pair_merged_single title_range_block_at)
next
  case (3 p1 p2 rest cur)
  let ?n = "max (cur + row_count (struct p1) + 2) (cur + row_count (struct p2) + 2) + block_spacing"
  obtain ws1 tr1 where ps: "pair_step tn ds p1 (Some p2) (ws, cur, tr) = (ws1, ?n, tr1)"
    using pair_step_pair[of tn ds p1 p2 ws cur tr] by blast
  have "merged ws1 = merged ws @ [(cur, left_start_col, cur, left_start_col + total_cols (struct p1) - 1),
                    (cur, right_start_col, cur, right_start_col + total_cols (struct p2) - 1)]"
    using pair_merged_pair[of tn ds p1 p2 ws cur tr] by (simp add: ps)
  with 3[of ws1 tr1] show ?case by (simp add: ps title_range_block_at)
qed

lemma place_group_drawn:
  assumes "\<forall>p \<in> set g. well_formed p" and "b \<in> set (band_blocks tn ds g cur)"
  shows "drawn (fst (place_group tn ds g (ws, cur, tr))) b"
  using assms
proof (induction g cur arbitrary: ws tr rule: band_next.induct)
  case (1 cur)
  then show ?case by simp
next
  case (2 p1 cur)
  from 2(1) have w: "well_formed p1" by simp
  from 2(2) have "b = block_at tn ds p1 cur left_start_col" by simp
  with pair_drawn_single[OF w, of tn ds ws cur tr] show ?case by simp
next
  case (3 p1 p2 rest cur)
  let ?n = "max (cur + row_count (struct p1) + 2) (cur + row_count (struct p2) + 2) + block_spacing"
  from 3(2) have w: "well_formed p1" "well_formed p2" "\<forall>p \<in> set rest. well_formed p" by simp_all
  obtain ws1 tr1 where ps: "pair_step tn ds p1 (Some p2) (ws, cur, tr) = (ws1, ?n, tr1)"
    using pair_step_pair[of tn ds p1 p2 ws cur tr] by blast
  have pg: "place_group tn ds (p1 # p2 # rest) (ws, cur, tr) = place_group tn ds rest (ws1, ?n, tr1)"
    by (simp add: ps)
  have d: "drawn ws1 (block_at tn ds p1 cur left_start_col)" "drawn ws1 (block_at tn ds p2 cur right_start_col)"
    using pair_drawn_pair[OF w(1,2), of tn ds ws cur tr] by (simp_all add: ps)
  have m: "set (merged ws1) \<subseteq> set (merged (fst (place_group tn ds rest (ws1, ?n, tr1))))"
    unfolding place_group_merged by simp
  have f: "\<And>r c. r < ?n \<Longrightarrow> cells (fst (place_group tn ds rest (ws1, ?n, tr1))) (r, c) = cells ws1 (r, c)"
    by (rule place_group_frame[OF w(3)]) simp
  note IH = 3(1)
  have e1: "b_end (block_at tn ds p1 cur left_start_col) < ?n"
    by (simp add: block_at_def block_spacing_def; arith)
  have e2: "b_end (block_at tn ds p2 cur right_start_col) < ?n"
    by (simp add: block_at_def block_spacing_def; arith)
  from 3(3) consider (l) "b = block_at tn ds p1 cur left_start_col" | (r) "b = block_at tn ds p2 cur right_start_col"
    | (t) "b \<in> set (band_blocks tn ds rest ?n)" by auto
  then show ?case
  proof cases
    case l
    from w(1) have p: "0 < total_cols (struct p1)" by (simp add: well_formed_def)
    show ?thesis
      unfolding pg l
      by (rule drawn_preserved[OF m f _ _ e1 d(1)]) (simp_all add: block_at_def p)
  next
    case r
    from w(2) have p: "0 < total_cols (struct p2)" by (simp add: well_formed_def)
    show ?thesis
      unfolding pg r
      by (rule drawn_preserved[OF m f _ _ e2 d(2)]) (simp_all add: block_at_def p)
  next
    case t
    show ?thesis unfolding pg by (rule IH[OF w(3) t])
  qed
qed

lemma place_group_odd_slot:
  assumes "\<forall>p \<in> set g. well_formed p" and "odd (length g)"
    and "\<forall>r c. cur \<le> r \<longrightarrow> cells ws (r, c) = None"
    and "b_row (last (band_blocks tn ds g cur)) \<le> r" and "right_start_col \<le> c"
  shows "cells (fst (place_group tn ds g (ws, cur, tr))) (r, c) = None"
  using assms
proof (induction g cur arbitrary: ws tr rule: band_next.induct)
  case (1 cur)
  then show ?case by simp
next
  case (2 p1 cur)
  from 2(1) have w: "well_formed p1" by simp
  from 2(4) have r: "cur \<le> r" by (simp add: block_at_def)
  from 2(5) have "r < cur \<or> cur + row_count (struct p1) + 2 + block_spacing \<le> r \<or> right_start_col \<le> c"
    by simp
  from pair_frame_single[OF w this, of tn ds ws tr] 2(3) r show ?case by simp
next
  case (3 p1 p2 rest cur)
  let ?n = "max (cur + row_count (struct p1) + 2) (cur + row_count (struct p2) + 2) + block_spacing"
  from 3(2) have w: "well_formed p1" "well_formed p2" "\<forall>p \<in> set rest. well_formed p" by simp_all
  from 3(3) have o: "odd (length rest)" by simp
  then have ne: "band_blocks tn ds rest ?n \<noteq> []"
    using band_blocks_length[of tn ds rest ?n] by (cases rest) auto
  obtain ws1 tr1 where ps: "pair_step tn ds p1 (Some p2) (ws, cur, tr) = (ws1, ?n, tr1)"
    using pair_step_pair[of tn ds p1 p2 ws cur tr] by blast
  have e: "\<forall>r c. ?n \<le> r \<longrightarrow> cells ws1 (r, c) = None"
  proof (intro allI impI)
    fix r c assume n: "?n \<le> r"
    then have "r < cur \<or> ?n \<le> r" by simp
    from pair_frame_pair[OF w(1,2) this, where tn = tn and ds = ds and ws = ws and tr = tr and c = c]
    have "cells ws1 (r, c) = cells ws (r, c)" by (simp add: ps)
    moreover from n have "cur \<le> r" by simp
    ultimately show "cells ws1 (r, c) = None" using 3(4) by simp
  qed
  from 3(5) ne have l: "b_row (last (band_blocks tn ds rest ?n)) \<le> r" by simp
  from 3(1)[OF w(3) o e l 3(6), of tr1] show ?case by (simp add: ps)
qed

lemma sheet_frame:
  assumes "\<forall>g \<in> set gs. \<forall>p \<in> set g. well_formed p" and "r < cur"
  shows "cells (fst (fold (place_group tn ds) gs (ws, cur, tr))) (r, c) = cells ws (r, c)"
  using assms
proof (induction gs arbitrary: ws cur tr)
  case Nil
  show ?case by simp
next
  case (Cons g gs)
  obtain ws1 where pg: "place_group tn ds g (ws, cur, tr) = (ws1, band_next g cur, tr @ band_blocks tn ds g cur)"
    using place_group_blocks[of tn ds g ws cur tr] by blast
  from Cons(2) have w: "\<forall>p \<in> set g. well_formed p" "\<forall>g \<in> set gs. \<forall>p \<in> set g. well_formed p"
    by simp_all
  from Cons(3) band_next_ge[of cur g] have r: "r < band_next g cur" by simp
  from Cons(3) have "r < cur \<or> band_next g cur \<le> r" by simp
  from place_group_frame[OF w(1) this, where tn = tn and ds = ds and ws = ws and tr = tr and c = c]
  have "cells ws1 (r, c) = cells ws (r, c)" by (simp add: pg)
  with Cons(1)[OF w(2) r, of ws1 "tr @ band_blocks tn ds g cur"] show ?case by (simp add: pg)
qed

lemma sheet_merged:
  "merged (fst (fold (place_group tn ds) gs (ws, cur, tr)))
     = merged ws @ map title_range (sheet_blocks tn ds gs cur)"
proof (induction gs arbitrary: ws cur tr)
  case Nil
  show ?case by simp
next
  case (Cons g gs)
  obtain ws1 where pg: "place_group tn ds g (ws, cur, tr) = (ws1, band_next g cur, tr @ band_blocks tn ds g cur)"
    using place_group_blocks[of tn ds g ws cur tr] by blast
  have "merged ws1 = merged ws @ map title_range (band_blocks tn ds g cur)"
    using place_group_merged[of tn ds g ws cur tr] by (simp add: pg)
  with Cons[of ws1 "band_next g cur" "tr @ band_blocks tn ds g cur"] show ?case by (simp add: pg)
qed

lemma sheet_drawn:
  assumes "\<forall>g \<in> set gs. \<forall>p \<in> set g. well_formed p" and "b \<in> set (sheet_blocks tn ds gs cur)"
  shows "drawn (fst (fold (place_group tn ds) gs (ws, cur, tr))) b"
  using assms
proof (induction gs arbitrary: ws cur tr)
  case Nil
  then show ?case by simp
next
  case (Cons g gs)
  obtain ws1 where pg: "place_group tn ds g (ws, cur, tr) = (ws1, band_next g cur, tr @ band_blocks tn ds g cur)"
    using place_group_blocks[of tn ds g ws cur tr] by blast
  let ?tr1 = "tr @ band_blocks tn ds g cur"
  from Cons(2) have w: "\<forall>p \<in> set g. well_formed p" "\<forall>g \<in> set gs. \<forall>p \<in> set g. well_formed p"
    by simp_all
  have fd: "fold (place_group tn ds) (g # gs) (ws, cur, tr)
      = fold (place_group tn ds) gs (ws1, band_next g cur, ?tr1)"
    by (simp add: pg)
  note IH = Cons(1)
  from Cons(3) consider (h) "b \<in> set (band_blocks tn ds g cur)"
    | (t) "b \<in> set (sheet_blocks tn ds gs (band_next g cur))" by auto
  then show ?case
  proof cases
    case h
    have d: "drawn ws1 b"
      using place_group_drawn[OF w(1) h, of ws tr] by (simp add: pg)
    have m: "set (merged ws1) \<subseteq> set (merged (fst (fold (place_group tn ds) gs (ws1, band_next g cur, ?tr1))))"
      unfolding sheet_merged by simp
    have f: "\<And>r c. r < band_next g cur \<Longrightarrow>
        cells (fst (fold (place_group tn ds) gs (ws1, band_next g cur, ?tr1))) (r, c) = cells ws1 (r, c)"
      by (rule sheet_frame[OF w(2)])
    from band_blocks_wf[OF w(1) h]
    have e: "b_end b = b_row b + row_count (struct (b_item b)) + 2" and p: "0 < b_cols b" by simp_all
    from band_blocks_rows[OF h] have l: "b_end b < band_next g cur" by simp
    show ?thesis
      unfolding fd by (rule drawn_preserved[OF m f e p l d])
  next
    case t
    show ?thesis unfolding fd by (rule IH[OF w(2) t])
  qed
qed

lemma sheet_odd_slot:
  assumes "\<forall>g \<in> set gs. \<forall>p \<in> set g. well_formed p" and "m < length gs" and "odd (length (gs ! m))"
    and "\<forall>r c. cur \<le> r \<longrightarrow> cells ws (r, c) = None"
    and "b_row (last (band_blocks tn ds (gs ! m) (fold band_next (take m gs) cur))) \<le> r"
    and "r < band_next (gs ! m) (fold band_next (take m gs) cur)"
    and "right_start_col \<le> c"
  shows "cells (fst (fold (place_group tn ds) gs (ws, cur, tr))) (r, c) = None"
  using assms
proof (induction gs arbitrary: m ws cur tr)
  case Nil
  then show ?case by simp
next
  case (Cons g gs)
  obtain ws1 where pg: "place_group tn ds g (ws, cur, tr) = (ws1, band_next g cur, tr @ band_blocks tn ds g cur)"
    using place_group_blocks[of tn ds g ws cur tr] by blast
  let ?tr1 = "tr @ band_blocks tn ds g cur"
  from Cons(2) have w: "\<forall>p \<in> set g. well_formed p" "\<forall>g \<in> set gs. \<forall>p \<in> set g. well_formed p"
    by simp_all
  have fd: "fold (place_group tn ds) (g # gs) (ws, cur, tr)
      = fold (place_group tn ds) gs (ws1, band_next g cur, ?tr1)"
    by (simp add: pg)
  note IH = Cons(1)
  show ?case
  proof (cases m)
    case 0
    from Cons(4) 0 have o: "odd (length g)" by simp
    from Cons(6) 0 have l: "b_row (last (band_blocks tn ds g cur)) \<le> r" by simp
    from Cons(7) 0 have u: "r < band_next g cur" by simp
    have "cells ws1 (r, c) = None"
      using place_group_odd_slot[OF w(1) o Cons(5) l Cons(8), of tr] by (simp add: pg)
    then show ?thesis
      unfolding fd using sheet_frame[OF w(2) u, of tn ds ws1 ?tr1 c] by simp
  next
    case (Suc k)
    from Cons(3) Suc have k: "k < length gs" by simp
    from Cons(4) Suc have o: "odd (length (gs ! k))" by simp
    from Cons(6) Suc
    have l: "b_row (last (band_blocks tn ds (gs ! k) (fold band_next (take k gs) (band_next g cur)))) \<le> r"
      by simp
    from Cons(7) Suc have u: "r < band_next (gs ! k) (fold band_next (take k gs) (band_next g cur))"
      by simp
    have e: "\<forall>r c. band_next g cur \<le> r \<longrightarrow> cells ws1 (r, c) = None"
    proof (intro allI impI)
      fix r c assume n: "band_next g cur \<le> r"
      then have "r < cur \<or> band_next g cur \<le> r" by simp
      from place_group_frame[OF w(1) this, where tn = tn and ds = ds and ws = ws and tr = tr and c = c]
      have "cells ws1 (r, c) = cells ws (r, c)" by (simp add: pg)
      moreover from n band_next_ge[of cur g] have "cur \<le> r" by simp
      ultimately show "cells ws1 (r, c) = None" using Cons(5) by simp
    qed
    show ?thesis unfolding fd by (rule IH[OF w(2) k o e l u Cons(8)])
  qed
qed

lemma sheet_blocks_length: "length (sheet_blocks tn ds gs cur) = length (concat gs)"
  by (induction gs arbitrary: cur) (simp_all add: band_blocks_length)

lemma sheet_blocks_nth:
  "m < length gs \<Longrightarrow> k < length (gs ! m) \<Longrightarrow>
     sheet_blocks tn ds gs cur ! (length (concat (take m gs)) + k)
       = band_blocks tn ds (gs ! m) (fold band_next (take m gs) cur) ! k"
proof (induction gs arbitrary: m cur)
  case Nil
  then show ?case by simp
next
  case (Cons g gs)
  show ?case
  proof (cases m)
    case 0
    with Cons(3) show ?thesis by (simp add: nth_append band_blocks_length)
  next
    case (Suc j)
    with Cons(2,3) have j: "j < length gs" "k < length (gs ! j)" by simp_all
    have i: "length (concat (take m (g # gs))) + k
        = length (band_blocks tn ds g cur) + (length (concat (take j gs)) + k)"
      by (simp add: Suc band_blocks_length)
    show ?thesis
      unfolding i sheet_blocks.simps nth_append_length_plus
      using Cons(1)[OF j, of "band_next g cur"] by (simp add: Suc)
  qed
qed

lemma band_start_Suc:
  "m < length gs \<Longrightarrow>
     fold band_next (take (Suc m) gs) cur = band_next (gs ! m) (fold band_next (take m gs) cur)"
  by (simp add: take_Suc_conv_app_nth)

lemma concat_take_Suc:
  "m < length gs \<Longrightarrow> length (concat (take (Suc m) gs)) = length (concat (take m gs)) + length (gs ! m)"
  by (simp add: take_Suc_conv_app_nth)

lemma sorted_patterns_structs:
  "p \<in> set (sort_patterns_by_columns pats ''asc'') \<Longrightarrow>
     struct p = get_pattern_table_structure (p_data p) \<and> col_count p = total_cols (struct p)"
  by (auto simp: sort_patterns_by_columns_def Let_def)

lemma sorted_patterns_sorted: "sorted (map col_count (sort_patterns_by_columns pats ''asc''))"
  by (simp add: sort_patterns_by_columns_def Let_def)

lemma sorted_patterns_widths:
  "p \<in> set (sort_patterns_by_columns pats ''asc'') \<Longrightarrow> 6 \<le> col_count p \<and> col_count p \<le> 10"
  using sorted_patterns_structs[of p pats] struct_cols_bounds[of "p_data p"]
  by (simp add: min_columns_def max_columns_def)

lemma pattern_groups_bands:
  "pattern_groups_of type_data
     = filter (\<lambda>g. g \<noteq> [])
         [filter (\<lambda>p. 6 \<le> col_count p \<and> col_count p \<le> 7)
            (sort_patterns_by_columns (groupby r_pattern type_data) ''asc''),
          filter (\<lambda>p. 8 \<le> col_count p \<and> col_count p \<le> 10)
            (sort_patterns_by_columns (groupby r_pattern type_data) ''asc'')]"
proof -
  let ?xs = "sort_patterns_by_columns (groupby r_pattern type_data) ''asc''"
  have "filter (\<lambda>p. \<not> (6 \<le> col_count p \<and> col_count p \<le> 7)) ?xs
      = filter (\<lambda>p. 8 \<le> col_count p \<and> col_count p \<le> 10) ?xs"
  proof (rule filter_cong[OF refl])
    fix p assume "p \<in> set ?xs"
    from sorted_patterns_widths[OF this]
    show "(\<not> (6 \<le> col_count p \<and> col_count p \<le> 7)) = (8 \<le> col_count p \<and> col_count p \<le> 10)"
      by auto
  qed
  then show ?thesis
    unfolding pattern_groups_of_def group_by_column_range_def by simp
qed

lemma pattern_groups_well_formed:
  assumes "g \<in> set (pattern_groups_of type_data)" and "p \<in> set g"
  shows "well_formed p"
proof -
  let ?xs = "sort_patterns_by_columns (groupby r_pattern type_data) ''asc''"
  from assms(1) have "set g \<subseteq> set ?xs"
    unfolding pattern_groups_of_def group_by_column_range_def
    by (auto split: if_splits)
  with assms(2) have "p \<in> set ?xs" by auto
  from sorted_patterns_structs[OF this] show ?thesis
    by (intro well_formed_aggregated[of p "p_data p"]) simp
qed

lemma detail_sheet_sheet:
  "fst (generate_type_pattern_sheet ds ws tn type_data)
     = fst (fold (place_group tn ds) (pattern_groups_of type_data)
              (ws\<lparr> ws_title := tn @ sheet_suffix_detail \<rparr>, 1, []))"
  by (simp add: generate_type_pattern_sheet_def Let_def)

lemma band_layout:
  assumes m: "m < length gs" and ne: "\<forall>g \<in> set gs. g \<noteq> []"
  shows "(let pl = sheet_blocks tn ds gs cur; g = gs ! m; off = length (concat (take m gs)) in
      (\<forall>k < length g.
          b_item (pl ! (off + k)) = (g ! k)\<lparr> p_title := block_title tn (p_name (g ! k)) ds \<rparr>
        \<and> b_cols (pl ! (off + k)) = total_cols (struct (g ! k))
        \<and> b_end (pl ! (off + k)) = b_row (pl ! (off + k)) + row_count (struct (g ! k)) + 2)
    \<and> (\<forall>i. 2 * i < length g \<longrightarrow> b_col (pl ! (off + 2 * i)) = left_start_col)
    \<and> (\<forall>i. 2 * i + 1 < length g \<longrightarrow>
          b_col (pl ! (off + (2 * i + 1))) = right_start_col
        \<and> b_row (pl ! (off + (2 * i + 1))) = b_row (pl ! (off + 2 * i)))
    \<and> (\<forall>i. 2 * i + 2 < length g \<longrightarrow>
          b_row (pl ! (off + (2 * i + 2)))
            = max (b_end (pl ! (off + 2 * i))) (b_end (pl ! (off + (2 * i + 1)))) + block_spacing)
    \<and> (m = 0 \<longrightarrow> b_row (pl ! off) = cur)
    \<and> (Suc m < length gs \<longrightarrow>
          b_row (pl ! (off + length g))
            = max (b_end (pl ! (off + 2 * ((length g - 1) div 2)))) (b_end (pl ! (off + (length g - 1))))
              + block_spacing))"
proof -
  define pl where "pl = sheet_blocks tn ds gs cur"
  define g where "g = gs ! m"
  define off where "off = length (concat (take m gs))"
  define st where "st = fold band_next (take m gs) cur"
  define bb where "bb = band_blocks tn ds g st"
  have nth: "\<And>k. k < length g \<Longrightarrow> pl ! (off + k) = bb ! k"
    unfolding pl_def off_def bb_def st_def g_def by (rule sheet_blocks_nth[OF m])
  from m ne have gne: "g \<noteq> []" by (simp add: g_def)
  then have g0: "0 < length g" by simp
  have c1: "\<forall>k < length g.
          b_item (pl ! (off + k)) = (g ! k)\<lparr> p_title := block_title tn (p_name (g ! k)) ds \<rparr>
        \<and> b_cols (pl ! (off + k)) = total_cols (struct (g ! k))
        \<and> b_end (pl ! (off + k)) = b_row (pl ! (off + k)) + row_count (struct (g ! k)) + 2"
  proof (intro allI impI)
    fix k assume k: "k < length g"
    from band_blocks_item[OF k, of tn ds st]
    show "b_item (pl ! (off + k)) = (g ! k)\<lparr> p_title := block_title tn (p_name (g ! k)) ds \<rparr>
        \<and> b_cols (pl ! (off + k)) = total_cols (struct (g ! k))
        \<and> b_end (pl ! (off + k)) = b_row (pl ! (off + k)) + row_count (struct (g ! k)) + 2"
      unfolding nth[OF k] bb_def .
  qed
  have c2: "\<forall>i. 2 * i < length g \<longrightarrow> b_col (pl ! (off + 2 * i)) = left_start_col"
  proof (intro allI impI)
    fix i assume i: "2 * i < length g"
    from band_blocks_left[OF i, of tn ds st]
    show "b_col (pl ! (off + 2 * i)) = left_start_col"
      unfolding nth[OF i] bb_def .
  qed
  have c3: "\<forall>i. 2 * i + 1 < length g \<longrightarrow>
          b_col (pl ! (off + (2 * i + 1))) = right_start_col
        \<and> b_row (pl ! (off + (2 * i + 1))) = b_row (pl ! (off + 2 * i))"
  proof (intro allI impI)
    fix i assume i: "2 * i + 1 < length g"
    then have j: "2 * i < length g" by simp
    from band_blocks_right[OF i, of tn ds st]
    show "b_col (pl ! (off + (2 * i + 1))) = right_start_col
        \<and> b_row (pl ! (off + (2 * i + 1))) = b_row (pl ! (off + 2 * i))"
      unfolding nth[OF i] nth[OF j] bb_def .
  qed
  have c4: "\<forall>i. 2 * i + 2 < length g \<longrightarrow>
          b_row (pl ! (off + (2 * i + 2)))
            = max (b_end (pl ! (off + 2 * i))) (b_end (pl ! (off + (2 * i + 1)))) + block_spacing"
  proof (intro allI impI)
    fix i assume i: "2 * i + 2 < length g"
    then have j: "2 * i < length g" and k: "2 * i + 1 < length g" by simp_all
    from band_blocks_next_row[OF i, of tn ds st]
    show "b_row (pl ! (off + (2 * i + 2)))
            = max (b_end (pl ! (off + 2 * i))) (b_end (pl ! (off + (2 * i + 1)))) + block_spacing"
      unfolding nth[OF i] nth[OF j] nth[OF k] bb_def .
  qed
  have c5: "m = 0 \<longrightarrow> b_row (pl ! off) = cur"
  proof
    assume z: "m = 0"
    then have s: "st = cur" by (simp add: st_def)
    from nth[OF g0] have "pl ! off = bb ! 0" by simp
    with band_blocks_first[OF gne, of tn ds st] s show "b_row (pl ! off) = cur"
      by (simp add: bb_def)
  qed
  have c6: "Suc m < length gs \<longrightarrow>
          b_row (pl ! (off + length g))
            = max (b_end (pl ! (off + 2 * ((length g - 1) div 2)))) (b_end (pl ! (off + (length g - 1))))
              + block_spacing"
  proof
    assume s: "Suc m < length gs"
    with ne have hne: "gs ! Suc m \<noteq> []" by simp
    then have h0: "0 < length (gs ! Suc m)" by simp
    have "pl ! (length (concat (take (Suc m) gs)) + 0)
        = band_blocks tn ds (gs ! Suc m) (fold band_next (take (Suc m) gs) cur) ! 0"
      unfolding pl_def by (rule sheet_blocks_nth[OF s h0])
    then have "pl ! (off + length g)
        = band_blocks tn ds (gs ! Suc m) (band_next g st) ! 0"
      unfolding concat_take_Suc[OF m] band_start_Suc[OF m] off_def g_def st_def by simp
    then have r: "b_row (pl ! (off + length g)) = band_next g st"
      using band_blocks_first[OF hne, of tn ds "band_next g st"] by simp
    from g0 have i1: "2 * ((length g - 1) div 2) < length g" by arith
    from g0 have i2: "length g - 1 < length g" by arith
    show "b_row (pl ! (off + length g))
            = max (b_end (pl ! (off + 2 * ((length g - 1) div 2)))) (b_end (pl ! (off + (length g - 1))))
              + block_spacing"
      unfolding r nth[OF i1] nth[OF i2] bb_def by (rule band_next_last[OF gne])
  qed
  show ?thesis
    unfolding Let_def pl_def[symmetric] g_def[symmetric] off_def[symmetric]
    by (intro conjI) (fact c1 c2 c3 c4 c5 c6)+
qed

lemma odd_slot_layout:
  assumes w: "\<forall>g \<in> set gs. \<forall>p \<in> set g. well_formed p" and m: "m < length gs"
    and e: "\<forall>r c. cur \<le> r \<longrightarrow> cells ws (r, c) = None"
  shows "(let pl = sheet_blocks tn ds gs cur;
              sheet = fst (fold (place_group tn ds) gs (ws, cur, tr));
              g = gs ! m;
              L = pl ! (length (concat (take m gs)) + (length g - 1)) in
      odd (length g) \<longrightarrow>
        (\<forall>r c. b_row L \<le> r \<and> r < b_end L + block_spacing \<and> right_start_col \<le> c
               \<longrightarrow> cells sheet (r, c) = None))"
proof -
  define g where "g = gs ! m"
  define st where "st = fold band_next (take m gs) cur"
  define bb where "bb = band_blocks tn ds g st"
  define L where "L = sheet_blocks tn ds gs cur ! (length (concat (take m gs)) + (length g - 1))"
  have "odd (length g) \<longrightarrow>
        (\<forall>r c. b_row L \<le> r \<and> r < b_end L + block_spacing \<and> right_start_col \<le> c
               \<longrightarrow> cells (fst (fold (place_group tn ds) gs (ws, cur, tr))) (r, c) = None)"
  proof (intro impI allI)
    fix r c
    assume o: "odd (length g)"
      and a: "b_row L \<le> r \<and> r < b_end L + block_spacing \<and> right_start_col \<le> c"
    from o have g0: "0 < length g" by (cases g) simp_all
    then have gne: "g \<noteq> []" by simp
    from g0 have i: "length g - 1 < length g" by simp
    have Lb: "L = bb ! (length g - 1)"
      unfolding L_def bb_def st_def g_def by (rule sheet_blocks_nth[OF m i[unfolded g_def]])
    have bl: "length bb = length g" by (simp add: bb_def band_blocks_length)
    from bl gne have bne: "bb \<noteq> []" by auto
    have Ll: "L = last bb" unfolding Lb last_conv_nth[OF bne] bl by (rule refl)
    from o have "2 * ((length g - 1) div 2) = length g - 1" by (elim oddE) simp
    with band_next_last[OF gne, of st tn ds] have n: "band_next g st = b_end L + block_spacing"
      by (simp add: Lb bb_def)
    from a have a1: "b_row (last (band_blocks tn ds (gs ! m) (fold band_next (take m gs) cur))) \<le> r"
      by (simp add: Ll bb_def st_def g_def)
    from a n have a2: "r < band_next (gs ! m) (fold band_next (take m gs) cur)"
      by (simp add: st_def g_def)
    from a have a3: "right_start_col \<le> c" by simp
    show "cells (fst (fold (place_group tn ds) gs (ws, cur, tr))) (r, c) = None"
      by (rule sheet_odd_slot[OF w m o[unfolded g_def] e a1 a2 a3])
  qed
  then show ?thesis
    unfolding Let_def L_def g_def .
qed

lemma sorted_patterns_length:
  "length (sort_patterns_by_columns pats ''asc'') = length pats"
  by (simp add: sort_patterns_by_columns_def Let_def)

lemma sorted_patterns_set:
  "(\<lambda>p. (p_name p, p_data p)) ` set (sort_patterns_by_columns pats ''asc'') = set pats"
  by (simp add: sort_patterns_by_columns_def Let_def image_image)

text \<open>
  Claim C5: the packing of a detail sheet.  The patterns of the type, one table each, are
  sorted by column count and split into the band of 6 to 7 columns and the band of 8 to 10
  columns; empty bands are dropped.  On the sheet that \<^const>\<open>generate_type_pattern_sheet\<close>
  returns for a fresh sheet, with \<open>pl\<close> the blocks in the order they are rendered: there is one
  block per pattern of the bands; the merged ranges of the sheet are the title ranges of these
  blocks and no other; every block is drawn on the sheet, title, headers, data rows and total
  label.  Within each band, block \<open>2i\<close> is at the left anchor column and block \<open>2i + 1\<close>,
  when there is one, at the right anchor column on the same row; the first band starts on
  row 1, the next pair and the next band on the larger end row of the pair before plus
  \<^const>\<open>block_spacing\<close>.  When a band has an odd number of patterns, no cell exists from the
  right anchor column on in the rows of its last block and of the spacer below it: the right
  slot stays empty.
\<close>

theorem detail_sheet_packing:
  "(let xs = sort_patterns_by_columns (groupby r_pattern type_data) ''asc'';
        bands = filter (\<lambda>g. g \<noteq> [])
                  [filter (\<lambda>p. 6 \<le> col_count p \<and> col_count p \<le> 7) xs,
                   filter (\<lambda>p. 8 \<le> col_count p \<and> col_count p \<le> 10) xs];
        res = generate_type_pattern_sheet date_str new_sheet type_name type_data;
        sheet = fst res;
        pl = snd res
    in sorted (map col_count xs)
     \<and> length xs = length (groupby r_pattern type_data)
     \<and> (\<lambda>p. (p_name p, p_data p)) ` set xs = set (groupby r_pattern type_data)
     \<and> (\<forall>p \<in> set xs. struct p = get_pattern_table_structure (p_data p)
                       \<and> col_count p = total_cols (struct p))
     \<and> length pl = length (concat bands)
     \<and> merged sheet = map title_range pl
     \<and> (\<forall>b \<in> set pl. drawn sheet b)
     \<and> (\<forall>m < length bands.
          let pl = pl; g = bands ! m; off = length (concat (take m bands)) in
            (\<forall>k < length g.
                b_item (pl ! (off + k)) = (g ! k)\<lparr> p_title := block_title type_name (p_name (g ! k)) date_str \<rparr>
              \<and> b_cols (pl ! (off + k)) = total_cols (struct (g ! k))
              \<and> b_end (pl ! (off + k)) = b_row (pl ! (off + k)) + row_count (struct (g ! k)) + 2)
          \<and> (\<forall>i. 2 * i < length g \<longrightarrow> b_col (pl ! (off + 2 * i)) = left_start_col)
          \<and> (\<forall>i. 2 * i + 1 < length g \<longrightarrow>
                b_col (pl ! (off + (2 * i + 1))) = right_start_col
              \<and> b_row (pl ! (off + (2 * i + 1))) = b_row (pl ! (off + 2 * i)))
          \<and> (\<forall>i. 2 * i + 2 < length g \<longrightarrow>
                b_row (pl ! (off + (2 * i + 2)))
                  = max (b_end (pl ! (off + 2 * i))) (b_end (pl ! (off + (2 * i + 1)))) + block_spacing)
          \<and> (m = 0 \<longrightarrow> b_row (pl ! off) = 1)
          \<and> (Suc m < length bands \<longrightarrow>
                b_row (pl ! (off + length g))
                  = max (b_end (pl ! (off + 2 * ((length g - 1) div 2))))
                        (b_end (pl ! (off + (length g - 1))))
                    + block_spacing))
     \<and> (\<forall>m < length bands.
          let g = bands ! m; L = pl ! (length (concat (take m bands)) + (length g - 1)) in
            odd (length g) \<longrightarrow>
              (\<forall>r c. b_row L \<le> r \<and> r < b_end L + block_spacing \<and> right_start_col \<le> c
                     \<longrightarrow> cells sheet (r, c) = None)))"
proof -
  define bands where "bands = pattern_groups_of type_data"
  define start where "start = (new_sheet\<lparr> ws_title := type_name @ sheet_suffix_detail \<rparr>, 1::nat, []::pattern_entry block list)"
  have ne: "\<forall>g \<in> set bands. g \<noteq> []"
    by (auto simp: bands_def pattern_groups_of_def group_by_column_range_def)
  have w: "\<forall>g \<in> set bands. \<forall>p \<in> set g. well_formed p"
    using pattern_groups_well_formed by (auto simp: bands_def)
  have e: "\<forall>r c. 1 \<le> r \<longrightarrow> cells (new_sheet\<lparr> ws_title := type_name @ sheet_suffix_detail \<rparr>) (r, c) = None"
    by (simp add: new_sheet_def)
  have pl: "snd (generate_type_pattern_sheet date_str new_sheet type_name type_data)
      = sheet_blocks type_name date_str bands 1"
    unfolding bands_def by (rule detail_sheet_blocks)
  have sh: "fst (generate_type_pattern_sheet date_str new_sheet type_name type_data)
      = fst (fold (place_group type_name date_str) bands start)"
    unfolding bands_def start_def by (rule detail_sheet_sheet)
  have a1: "sorted (map col_count (sort_patterns_by_columns (groupby r_pattern type_data) ''asc''))"
    by (rule sorted_patterns_sorted)
  have a2: "length (sort_patterns_by_columns (groupby r_pattern type_data) ''asc'')
      = length (groupby r_pattern type_data)"
    by (rule sorted_patterns_length)
  have a3: "(\<lambda>p. (p_name p, p_data p)) ` set (sort_patterns_by_columns (groupby r_pattern type_data) ''asc'')
      = set (groupby r_pattern type_data)"
    by (rule sorted_patterns_set)
  have a4: "\<forall>p \<in> set (sort_patterns_by_columns (groupby r_pattern type_data) ''asc'').
      struct p = get_pattern_table_structure (p_data p) \<and> col_count p = total_cols (struct p)"
    using sorted_patterns_structs by blast
  have a5: "length (sheet_blocks type_name date_str bands 1) = length (concat bands)"
    by (rule sheet_blocks_length)
  have a6: "merged (fst (fold (place_group type_name date_str) bands start))
      = map title_range (sheet_blocks type_name date_str bands 1)"
    unfolding start_def sheet_merged by (simp add: new_sheet_def)
  have a7: "\<forall>b \<in> set (sheet_blocks type_name date_str bands 1).
      drawn (fst (fold (place_group type_name date_str) bands start)) b"
    unfolding start_def using sheet_drawn[OF w] by blast
  note a8 = band_layout[OF _ ne, of _ type_name date_str 1, unfolded Let_def]
  note a9 = odd_slot_layout[OF w _ e, of _ type_name date_str "[]", unfolded Let_def, folded start_def]
  show ?thesis
    unfolding Let_def pattern_groups_bands[symmetric] bands_def[symmetric] pl sh
    apply (intro conjI)
    subgoal by (rule a1)
    subgoal by (rule a2)
    subgoal by (rule a3)
    subgoal by (rule a4)
    subgoal by (rule a5)
    subgoal by (rule a6)
    subgoal by (rule a7)
    subgoal using a8 by blast
    subgoal using a9 by blast
    done
qed

theorem detail_sheet_packing_witness:
  "length (pattern_groups_of three_patterns) = 1
   \<and> length (pattern_groups_of three_patterns ! 0) = 3
   \<and> odd (length (pattern_groups_of three_patterns ! 0))
   \<and> length (snd (detail_of three_patterns)) = 3
   \<and> b_row (snd (detail_of three_patterns) ! 0) = 1
   \<and> b_col (snd (detail_of three_patterns) ! 0) = left_start_col
   \<and> b_col (snd (detail_of three_patterns) ! 1) = right_start_col
   \<and> b_row (snd (detail_of three_patterns) ! 1) = b_row (snd (detail_of three_patterns) ! 0)
   \<and> b_col (snd (detail_of three_patterns) ! 2) = left_start_col
   \<and> b_row (snd (detail_of three_patterns) ! 2)
       = max (b_end (snd (detail_of three_patterns) ! 0)) (b_end (snd (detail_of three_patterns) ! 1))
         + block_spacing
   \<and> snd (detail_of three_patterns) ! 2 \<in> set (snd (detail_of three_patterns))
   \<and> drawn (fst (detail_of three_patterns)) (snd (detail_of three_patterns) ! 2)
   \<and> cells (fst (detail_of three_patterns)) (b_row (snd (detail_of three_patterns) ! 2), right_start_col) = None"
proof -
  let ?pl = "snd (detail_of three_patterns)"
  let ?sheet = "fst (detail_of three_patterns)"
  let ?bands = "pattern_groups_of three_patterns"
  have l1: "length ?bands = 1" by code_simp
  have l3: "length (?bands ! 0) = 3" by code_simp
  have lc: "length (concat ?bands) = 3" by code_simp
  have o: "odd (length (?bands ! 0))" unfolding l3 by simp
  from l1 have m0: "0 < length ?bands" by simp
  note t = detail_sheet_packing[where type_data = three_patterns and date_str = "''2026-01-01''"
      and type_name = "''A''", unfolded Let_def pattern_groups_bands[symmetric], folded detail_of_def]
  note t5 = t[THEN conjunct2, THEN conjunct2, THEN conjunct2, THEN conjunct2, THEN conjunct1]
  note t7 = t[THEN conjunct2, THEN conjunct2, THEN conjunct2, THEN conjunct2, THEN conjunct2,
      THEN conjunct2, THEN conjunct1]
  note t8 = t[THEN conjunct2, THEN conjunct2, THEN conjunct2, THEN conjunct2, THEN conjunct2,
      THEN conjunct2, THEN conjunct2, THEN conjunct1]
  note t9 = t[THEN conjunct2, THEN conjunct2, THEN conjunct2, THEN conjunct2, THEN conjunct2,
      THEN conjunct2, THEN conjunct2, THEN conjunct2]
  note lay = t8[THEN spec, THEN mp, OF m0, unfolded take_0 concat.simps list.size add_0 l3]
  note slot = t9[THEN spec, THEN mp, OF m0, unfolded take_0 concat.simps list.size add_0 l3]
  have len: "length ?pl = 3" using t5 lc by simp
  have r0: "b_row (?pl ! 0) = 1" using lay[THEN conjunct2, THEN conjunct2, THEN conjunct2, THEN conjunct2, THEN conjunct1]
    by simp
  have c0: "b_col (?pl ! 0) = left_start_col"
    using lay[THEN conjunct2, THEN conjunct1, THEN spec, of 0] by simp
  have c1: "b_col (?pl ! 1) = right_start_col \<and> b_row (?pl ! 1) = b_row (?pl ! 0)"
    using lay[THEN conjunct2, THEN conjunct2, THEN conjunct1, THEN spec, of 0] by simp
  have c2: "b_col (?pl ! 2) = left_start_col"
    using lay[THEN conjunct2, THEN conjunct1, THEN spec, of 1] by simp
  have r2: "b_row (?pl ! 2) = max (b_end (?pl ! 0)) (b_end (?pl ! 1)) + block_spacing"
    using lay[THEN conjunct2, THEN conjunct2, THEN conjunct2, THEN conjunct1, THEN spec, of 0]
    by (simp add: numeral_2_eq_2)
  have e2: "b_end (?pl ! 2) = b_row (?pl ! 2) + row_count (struct (?bands ! 0 ! 2)) + 2"
    using lay[THEN conjunct1, THEN spec, of 2] by simp
  have mem: "?pl ! 2 \<in> set ?pl" using len by (intro nth_mem) simp
  have d2: "drawn ?sheet (?pl ! 2)" using t7 mem by blast
  have "b_row (?pl ! 2) \<le> b_row (?pl ! 2) \<and> b_row (?pl ! 2) < b_end (?pl ! 2) + block_spacing
      \<and> right_start_col \<le> right_start_col"
    using e2 by simp
  with slot[THEN mp, OF o[unfolded l3], THEN spec, THEN spec, of "b_row (?pl ! 2)" right_start_col]
  have s2: "cells ?sheet (b_row (?pl ! 2), right_start_col) = None"
    by (simp add: numeral_2_eq_2)
  from c1 have c1a: "b_col (?pl ! 1) = right_start_col" and c1b: "b_row (?pl ! 1) = b_row (?pl ! 0)"
    by simp_all
  show ?thesis
    by (intro conjI) (fact l1 l3 o len r0 c0 c1a c1b c2 r2 mem d2 s2)+
qed

end
